theory Spec2Isabelle
  imports Main "HOL-Library.Multiset" "HOL-Library.Word"
begin

section \<open>Text and case-insensitive names\<close>

text \<open>
  The program works on wide strings (\<^verbatim>\<open>std::wstring\<close>). A wide string is modelled as a
  list of code units; no claim depends on the width of a code unit.
\<close>

type_synonym wstring = string

text \<open>
  Modelled from the spec: the types \<^verbatim>\<open>key_name\<close> and \<^verbatim>\<open>section_name\<close> are declared in the
  module \<^verbatim>\<open>setup_api\<close>, which is not among the sources. The spec describes them as text
  whose equality and hashing ignore letter case, while the text itself keeps the casing it
  was built with. The values are therefore plain strings.
\<close>

type_synonym key_name = wstring
type_synonym section_name = wstring

text \<open>
  Modelled from the spec: the folding of letter case behind the equality of \<^verbatim>\<open>key_name\<close>
  and \<^verbatim>\<open>section_name\<close>, which is in the absent module; here on the letters A to Z.
\<close>

definition to_lower :: "char \<Rightarrow> char" where
  "to_lower c =
     (case map_of (zip ''ABCDEFGHIJKLMNOPQRSTUVWXYZ'' ''abcdefghijklmnopqrstuvwxyz'') c of
        Some l \<Rightarrow> l
      | None \<Rightarrow> c)"

text \<open>
  Modelled from the spec: the \<^verbatim>\<open>==\<close> of \<^verbatim>\<open>key_name\<close> and of \<^verbatim>\<open>section_name\<close>, absent with
  the module: two texts are equal when they are the same up to letter case. Every
  \<^verbatim>\<open>==\<close> of the source on these two types is \<open>ci_equal\<close>.
\<close>

definition ci_equal :: "wstring \<Rightarrow> wstring \<Rightarrow> bool" where
  "ci_equal a b \<longleftrightarrow> map to_lower a = map to_lower b"

section \<open>Failures\<close>

text \<open>
  Every \<^verbatim>\<open>throw\<close> is a value. \<open>MissingInstallSectionError\<close> is the
  \<^verbatim>\<open>std::runtime_error("install-section-name field is missing")\<close> of \<^verbatim>\<open>reader.h\<close>;
  \<open>MissingSectionError\<close> is the failure of the document reader on a section that does not
  exist, and \<open>EncodingError\<close> that of \<^verbatim>\<open>to_utf8\<close> on text it cannot convert. The last
  two are the failures that \<^verbatim>\<open>main_with_code\<close> tells apart from a \<^verbatim>\<open>std::exception\<close>:
  \<^verbatim>\<open>std::bad_alloc\<close> and anything else.
\<close>

datatype error =
  MissingSectionError
  | MissingInstallSectionError
  | EncodingError
  | ResourceExhaustionError
  | UnclassifiedError

section \<open>The document reader\<close>

text \<open>
  The classes \<^verbatim>\<open>inf_file\<close> and \<^verbatim>\<open>line\<close> live in the module \<^verbatim>\<open>setup_api\<close>, which is not
  among the sources. The definitions of this section follow the interface that the
  specification gives for the document reader.
\<close>

text \<open>
  Modelled from the spec: the absent class \<^verbatim>\<open>line\<close>, which exposes a key and indexed
  fields.
\<close>

record line =
  key :: wstring
  line_fields :: "wstring list"

text \<open>Modelled from the spec: \<^verbatim>\<open>line::size()\<close> of the absent class, the number of fields.\<close>

definition line_size :: "line \<Rightarrow> nat" where
  "line_size l = length (line_fields l)"

text \<open>
  Modelled from the spec: \<^verbatim>\<open>line::field_at(i)\<close> of the absent class. The callers only read
  below \<open>line_size\<close>.
\<close>

definition field_at :: "line \<Rightarrow> nat \<Rightarrow> wstring" where
  "field_at l i = line_fields l ! i"

text \<open>
  Modelled from the spec: the absent class \<^verbatim>\<open>inf_file\<close>. A document is the list of its
  sections in file order, each with its name and its lines in file order.
\<close>

type_synonym inf_file = "(section_name \<times> line list) list"

text \<open>
  Modelled from the spec: the absent type \<^verbatim>\<open>enumeration\<close>, the continue/stop signal that
  a visitor returns.
\<close>

datatype enumeration = move_next | stop

text \<open>
  Modelled from the spec: the enumeration behind \<^verbatim>\<open>for_each_section\<close> and
  \<^verbatim>\<open>for_each_line\<close>, absent with the module. The visitor is called on each item in
  order with the state it captured by reference; a failure of the visitor ends the
  enumeration and is passed on, and so does the signal \<open>stop\<close>, without failure.
\<close>

fun enumerate_with :: "('a \<Rightarrow> 's \<Rightarrow> error + enumeration \<times> 's) \<Rightarrow> 'a list \<Rightarrow> 's \<Rightarrow> error + 's" where
  "enumerate_with visitor [] s = Inr s"
| "enumerate_with visitor (x # xs) s =
     (case visitor x s of
        Inl e \<Rightarrow> Inl e
      | Inr (signal, s') \<Rightarrow>
          (case signal of
             move_next \<Rightarrow> enumerate_with visitor xs s'
           | stop \<Rightarrow> Inr s'))"

text \<open>
  Modelled from the spec: whether the document has a section of that name; the reader,
  which is absent, matches section names without regard to letter case.
\<close>

definition has_section :: "inf_file \<Rightarrow> section_name \<Rightarrow> bool" where
  "has_section file n \<longleftrightarrow> (\<exists>s \<in> set file. ci_equal (fst s) n)"

text \<open>
  Modelled from the spec: the lines that the absent \<^verbatim>\<open>for_each_line\<close> visits for a section
  name, in file order; the lines of sections that bear the same name follow one another.
\<close>

definition section_lines :: "inf_file \<Rightarrow> section_name \<Rightarrow> line list" where
  "section_lines file n = concat (map snd (filter (\<lambda>s. ci_equal (fst s) n) file))"

text \<open>
  Modelled from the spec: \<^verbatim>\<open>inf_file::for_each_section\<close>, absent with the module, visits
  the name of every section.
\<close>

definition for_each_section ::
  "inf_file \<Rightarrow> (section_name \<Rightarrow> 's \<Rightarrow> error + enumeration \<times> 's) \<Rightarrow> 's \<Rightarrow> error + 's" where
  "for_each_section file visitor s = enumerate_with visitor (map fst file) s"

text \<open>
  Modelled from the spec: \<^verbatim>\<open>inf_file::for_each_line\<close>, absent with the module, visits the
  lines of a section in file order and fails when the section is missing.
\<close>

definition for_each_line ::
  "inf_file \<Rightarrow> section_name \<Rightarrow> (line \<Rightarrow> 's \<Rightarrow> error + enumeration \<times> 's) \<Rightarrow> 's \<Rightarrow> error + 's" where
  "for_each_line file n visitor s =
     (if has_section file n then enumerate_with visitor (section_lines file n) s
      else Inl MissingSectionError)"

section \<open>Unordered containers\<close>

text \<open>
  \<^verbatim>\<open>std::unordered_set<section_name>\<close>: the elements, no two of them equal as section
  names. The program only inserts into it and searches it; \<^verbatim>\<open>find\<close> returns the stored
  element, which is unique, so the order of the list is never observed.
\<close>

type_synonym section_set = "section_name list"

definition set_find :: "section_set \<Rightarrow> section_name \<Rightarrow> section_name option" where
  "set_find all_sections n = find (\<lambda>s. ci_equal s n) all_sections"

definition set_emplace :: "section_set \<Rightarrow> section_name \<Rightarrow> section_set" where
  "set_emplace all_sections n =
     (case set_find all_sections n of
        Some s \<Rightarrow> all_sections
      | None \<Rightarrow> all_sections @ [n])"

section \<open>reader.h\<close>

record manufacturer_line =
  name :: key_name
  models_section_name :: section_name
  architectures :: "wstring list"

record device_description_line =
  device_description :: key_name
  install_section :: section_name
  hardware_ids :: "wstring list"

text \<open>The loop \<^verbatim>\<open>for (size_t i = 1; i < line.size(); ++i)\<close> collecting \<^verbatim>\<open>field_at(i)\<close>.\<close>

definition fields_from_1 :: "line \<Rightarrow> wstring list" where
  "fields_from_1 l = map (field_at l) [1..<line_size l]"

definition manufacturer_visitor ::
  "line \<Rightarrow> manufacturer_line list \<Rightarrow> error + enumeration \<times> manufacturer_line list" where
  "manufacturer_visitor l result =
     (let make = \<lparr>name = key l,
                  models_section_name = (if line_size l > 0 then field_at l 0 else key l),
                  architectures = (if line_size l > 1 then fields_from_1 l else [])\<rparr>
      in Inr (move_next, result @ [make]))"

definition extract_manufacturers :: "inf_file \<Rightarrow> error + manufacturer_line list" where
  "extract_manufacturers file = for_each_line file ''Manufacturer'' manufacturer_visitor []"

definition section_visitor ::
  "section_name \<Rightarrow> section_set \<Rightarrow> error + enumeration \<times> section_set" where
  "section_visitor raw_name result = Inr (move_next, set_emplace result raw_name)"

definition extract_sections :: "inf_file \<Rightarrow> error + section_set" where
  "extract_sections file = for_each_section file section_visitor []"

definition device_visitor ::
  "line \<Rightarrow> device_description_line list \<Rightarrow> error + enumeration \<times> device_description_line list" where
  "device_visitor device_entry result =
     (if line_size device_entry = 0 then Inl MissingInstallSectionError
      else
        let desc = \<lparr>device_description = key device_entry,
                    install_section = field_at device_entry 0,
                    hardware_ids = (if line_size device_entry > 1
                                    then fields_from_1 device_entry else [])\<rparr>
        in Inr (move_next, result @ [desc]))"

definition extract_device_descriptions ::
  "inf_file \<Rightarrow> section_name \<Rightarrow> error + device_description_line list" where
  "extract_device_descriptions file section =
     for_each_line file section device_visitor []"

section \<open>report.h\<close>

record model =
  description :: string
  hardware_ids :: "string list"
  architectures :: "string list"

record manufacturer =
  name :: string
  devices :: "model list"

type_synonym report = "manufacturer list"

record models_sections_correlation =
  architecture :: wstring
  models_section :: section_name

text \<open>
  The generator \<^verbatim>\<open>correlate_models_sections\<close> is the list of the values it yields. It
  only searches the set between two yields, so that producing all values before the
  consumer runs changes nothing.
\<close>

definition delimiter :: char where
  "delimiter = CHR ''.''"

fun correlate_architectures ::
  "manufacturer_line \<Rightarrow> section_set \<Rightarrow> wstring list \<Rightarrow> models_sections_correlation list" where
  "correlate_architectures m all_sections [] = []"
| "correlate_architectures m all_sections (a # rest) =
     (let composed = models_section_name m @ [delimiter] @ a
      in (case set_find all_sections composed of
            Some s \<Rightarrow> [\<lparr>architecture = a, models_section = s\<rparr>]
          | None \<Rightarrow> [])
         @ correlate_architectures m all_sections rest)"

definition correlate_models_sections ::
  "manufacturer_line \<Rightarrow> section_set \<Rightarrow> models_sections_correlation list" where
  "correlate_models_sections m all_sections =
     (case set_find all_sections (models_section_name m) of
        Some s \<Rightarrow> [\<lparr>architecture = [], models_section = s\<rparr>]
      | None \<Rightarrow> [])
     @ correlate_architectures m all_sections (manufacturer_line.architectures m)"

record model_key =
  description :: key_name
  hardware_ids :: "wstring list"

text \<open>
  \<^verbatim>\<open>std::hash<model_key>\<close>. The hash of \<^verbatim>\<open>key_name\<close> is declared in the absent module and
  that of \<^verbatim>\<open>std::wstring\<close> in the standard library: both are parameters. \<^verbatim>\<open>size_t\<close> is a
  machine word, and the arithmetic wraps around.
\<close>

definition hash_model_key ::
  "(key_name \<Rightarrow> 'a::len word) \<Rightarrow> (wstring \<Rightarrow> 'a word) \<Rightarrow> model_key \<Rightarrow> 'a word" where
  "hash_model_key hash_key_name hasher k =
     foldl (\<lambda>result hardware_id. result * 131 + hasher hardware_id)
       (hash_key_name (model_key.description k)) (model_key.hardware_ids k)"

text \<open>\<^verbatim>\<open>std::ranges::equal\<close> on two vectors, with the \<^verbatim>\<open>==\<close> of \<^verbatim>\<open>std::wstring\<close>.\<close>

fun ranges_equal :: "wstring list \<Rightarrow> wstring list \<Rightarrow> bool" where
  "ranges_equal [] [] = True"
| "ranges_equal (x # xs) (y # ys) = (x = y \<and> ranges_equal xs ys)"
| "ranges_equal _ _ = False"

definition model_key_eq :: "model_key \<Rightarrow> model_key \<Rightarrow> bool" where
  "model_key_eq left right \<longleftrightarrow>
     ci_equal (model_key.description left) (model_key.description right)
     \<and> ranges_equal (model_key.hardware_ids left) (model_key.hardware_ids right)"

text \<open>
  \<^verbatim>\<open>std::unordered_map<model_key, std::vector<std::wstring>>\<close>: the entries, here kept in
  the order of their insertion. \<^verbatim>\<open>find\<close> searches by \<open>model_key_eq\<close>, which is what the
  container does when equal keys have equal hashes; \<open>hash_model_key\<close> has that property
  as soon as the hash of \<^verbatim>\<open>key_name\<close> ignores letter case, as the specification says it
  does. The order in which the container is iterated is not the order of this list: see
  \<open>select_report_data\<close>.
\<close>

type_synonym model_data = "(model_key \<times> wstring list) list"

fun map_find :: "model_data \<Rightarrow> model_key \<Rightarrow> wstring list option" where
  "map_find [] k = None"
| "map_find ((k', v) # rest) k = (if model_key_eq k' k then Some v else map_find rest k)"

text \<open>\<^verbatim>\<open>found->second.emplace_back(a)\<close> on the entry that \<^verbatim>\<open>find\<close> returned.\<close>

fun emplace_back_found :: "model_data \<Rightarrow> model_key \<Rightarrow> wstring \<Rightarrow> model_data" where
  "emplace_back_found [] k a = []"
| "emplace_back_found ((k', v) # rest) k a =
     (if model_key_eq k' k then (k', v @ [a]) # rest
      else (k', v) # emplace_back_found rest k a)"

definition map_insert :: "model_data \<Rightarrow> model_key \<Rightarrow> wstring list \<Rightarrow> model_data" where
  "map_insert md k v = md @ [(k, v)]"

text \<open>
  The body of the innermost loop of \<^verbatim>\<open>select_report_data\<close>, for one device line:
  the key is built from the description and the hardware ids of the line, and nothing else.
\<close>

definition device_key :: "device_description_line \<Rightarrow> model_key" where
  "device_key inf_device =
     \<lparr>model_key.description = device_description inf_device,
      hardware_ids = device_description_line.hardware_ids inf_device\<rparr>"

definition aggregate_device ::
  "wstring \<Rightarrow> device_description_line \<Rightarrow> model_data \<Rightarrow> model_data" where
  "aggregate_device arch inf_device md =
     (let k = device_key inf_device
      in case map_find md k of
           Some found \<Rightarrow> emplace_back_found md k arch
         | None \<Rightarrow> map_insert md k [arch])"

fun aggregate_section ::
  "wstring \<Rightarrow> device_description_line list \<Rightarrow> model_data \<Rightarrow> model_data" where
  "aggregate_section arch [] md = md"
| "aggregate_section arch (d # ds) md = aggregate_section arch ds (aggregate_device arch d md)"

fun aggregate_correlations ::
  "inf_file \<Rightarrow> models_sections_correlation list \<Rightarrow> model_data \<Rightarrow> error + model_data" where
  "aggregate_correlations file [] md = Inr md"
| "aggregate_correlations file (c # cs) md =
     (case extract_device_descriptions file (models_section c) of
        Inl e \<Rightarrow> Inl e
      | Inr ds \<Rightarrow> aggregate_correlations file cs (aggregate_section (architecture c) ds md))"

text \<open>
  The C++ standard leaves the order in which an \<^verbatim>\<open>unordered_map\<close> is iterated
  unspecified: it depends on the hash values and on the bucket layout of the library, and
  neither is in the sources. The order is therefore a parameter \<open>traverse\<close>, which maps
  the entries in insertion order to the entries in iteration order; all the container
  promises is that each entry is visited once, which is \<open>iteration_order\<close>.
\<close>

definition iteration_order :: "(model_data \<Rightarrow> model_data) \<Rightarrow> bool" where
  "iteration_order traverse \<longleftrightarrow> (\<forall>md. mset (traverse md) = mset md)"

text \<open>
  Modelled from the spec: \<^verbatim>\<open>to_utf8\<close> is declared in the absent module \<^verbatim>\<open>setup_api\<close>. The
  specification gives it as total on valid text and failing with an encoding error on
  ill-formed text, and only there. Which texts are well formed, and what the conversion
  of a text is, are the parameters \<open>well_formed\<close> and \<open>utf8\<close>.
\<close>

definition to_utf8 :: "(wstring \<Rightarrow> bool) \<Rightarrow> (wstring \<Rightarrow> string) \<Rightarrow> wstring \<Rightarrow> error + string" where
  "to_utf8 well_formed utf8 s = (if well_formed s then Inr (utf8 s) else Inl EncodingError)"

text \<open>
  The two loops of the form
  \<^verbatim>\<open>for (const std::wstring& x : xs) out.push_back(to_utf8(x))\<close>: the first text that does
  not convert ends the loop with its failure.
\<close>

fun to_utf8_each ::
  "(wstring \<Rightarrow> bool) \<Rightarrow> (wstring \<Rightarrow> string) \<Rightarrow> wstring list \<Rightarrow> string list
   \<Rightarrow> error + string list" where
  "to_utf8_each well_formed utf8 [] out = Inr out"
| "to_utf8_each well_formed utf8 (x # xs) out =
     (case to_utf8 well_formed utf8 x of
        Inl e \<Rightarrow> Inl e
      | Inr u \<Rightarrow> to_utf8_each well_formed utf8 xs (out @ [u]))"

text \<open>
  The body of the loop over the entries of the map: the description is converted first,
  then the hardware ids, then the architectures.
\<close>

definition to_model ::
  "(wstring \<Rightarrow> bool) \<Rightarrow> (wstring \<Rightarrow> string) \<Rightarrow> model_key \<times> wstring list \<Rightarrow> error + model" where
  "to_model well_formed utf8 entry =
     (case to_utf8 well_formed utf8 (model_key.description (fst entry)) of
        Inl e \<Rightarrow> Inl e
      | Inr d \<Rightarrow>
          (case to_utf8_each well_formed utf8 (model_key.hardware_ids (fst entry)) [] of
             Inl e \<Rightarrow> Inl e
           | Inr ids \<Rightarrow>
               (case to_utf8_each well_formed utf8 (snd entry) [] of
                  Inl e \<Rightarrow> Inl e
                | Inr archs \<Rightarrow>
                    Inr \<lparr>model.description = d, hardware_ids = ids,
                         architectures = archs\<rparr>)))"

text \<open>
  The loop \<^verbatim>\<open>for (const auto& [key, architectures] : model_data)\<close> over the entries as the
  container hands them out, with \<^verbatim>\<open>devices.push_back\<close>.
\<close>

fun to_models ::
  "(wstring \<Rightarrow> bool) \<Rightarrow> (wstring \<Rightarrow> string) \<Rightarrow> model_data \<Rightarrow> model list
   \<Rightarrow> error + model list" where
  "to_models well_formed utf8 [] out = Inr out"
| "to_models well_formed utf8 (entry # rest) out =
     (case to_model well_formed utf8 entry of
        Inl e \<Rightarrow> Inl e
      | Inr m \<Rightarrow> to_models well_formed utf8 rest (out @ [m]))"

text \<open>
  The body of the loop over the manufacturers: the sections of the manufacturer are read
  and aggregated, then its name is converted, then its models.
\<close>

definition report_entry ::
  "(model_data \<Rightarrow> model_data) \<Rightarrow> (wstring \<Rightarrow> bool) \<Rightarrow> (wstring \<Rightarrow> string) \<Rightarrow> inf_file
   \<Rightarrow> section_set \<Rightarrow> manufacturer_line \<Rightarrow> error + manufacturer" where
  "report_entry traverse well_formed utf8 file all_sections inf_manufacturer =
     (case aggregate_correlations file
             (correlate_models_sections inf_manufacturer all_sections) [] of
        Inl e \<Rightarrow> Inl e
      | Inr md \<Rightarrow>
          (case to_utf8 well_formed utf8 (manufacturer_line.name inf_manufacturer) of
             Inl e \<Rightarrow> Inl e
           | Inr n \<Rightarrow>
               (case to_models well_formed utf8 (traverse md) [] of
                  Inl e \<Rightarrow> Inl e
                | Inr ds \<Rightarrow> Inr \<lparr>manufacturer.name = n, devices = ds\<rparr>)))"

fun report_entries ::
  "(model_data \<Rightarrow> model_data) \<Rightarrow> (wstring \<Rightarrow> bool) \<Rightarrow> (wstring \<Rightarrow> string) \<Rightarrow> inf_file
   \<Rightarrow> section_set \<Rightarrow> manufacturer_line list \<Rightarrow> report \<Rightarrow> error + report" where
  "report_entries traverse well_formed utf8 file all_sections [] output = Inr output"
| "report_entries traverse well_formed utf8 file all_sections (m # ms) output =
     (case report_entry traverse well_formed utf8 file all_sections m of
        Inl e \<Rightarrow> Inl e
      | Inr entry \<Rightarrow>
          report_entries traverse well_formed utf8 file all_sections ms (output @ [entry]))"

definition select_report_data ::
  "(model_data \<Rightarrow> model_data) \<Rightarrow> (wstring \<Rightarrow> bool) \<Rightarrow> (wstring \<Rightarrow> string) \<Rightarrow> inf_file
   \<Rightarrow> error + report" where
  "select_report_data traverse well_formed utf8 file =
     (case extract_sections file of
        Inl e \<Rightarrow> Inl e
      | Inr all_sections \<Rightarrow>
          (case extract_manufacturers file of
             Inl e \<Rightarrow> Inl e
           | Inr ms \<Rightarrow> report_entries traverse well_formed utf8 file all_sections ms []))"

section \<open>main.cpp\<close>

datatype exit_codes = success | invalid_arguments | error | unspecified_error | out_of_memory

text \<open>
  What a run leaves behind: its exit code, the report written to \<^verbatim>\<open>std::cout\<close> if one
  was written, and whether an error payload went to \<^verbatim>\<open>std::cerr\<close>. Opening the document
  (\<^verbatim>\<open>inf_file file(argv[1])\<close>) is the parameter \<open>open_file\<close>. The serialisation of
  \<^verbatim>\<open>json.h\<close> keeps the order of every array, so that the report stands for its text;
  writing the error payload is taken to succeed.
\<close>

datatype diagnostic = Usage | Error_payload error | Unexpected_error

record run =
  exit_code :: exit_codes
  cout :: "report option"
  cerr :: "diagnostic option"

definition handle :: "error \<Rightarrow> run" where
  "handle e =
     (case e of
        ResourceExhaustionError \<Rightarrow> \<lparr>exit_code = out_of_memory, cout = None, cerr = None\<rparr>
      | UnclassifiedError \<Rightarrow>
          \<lparr>exit_code = unspecified_error, cout = None, cerr = Some Unexpected_error\<rparr>
      | _ \<Rightarrow> \<lparr>exit_code = exit_codes.error, cout = None, cerr = Some (Error_payload e)\<rparr>)"

definition main_with_code ::
  "(model_data \<Rightarrow> model_data) \<Rightarrow> (wstring \<Rightarrow> bool) \<Rightarrow> (wstring \<Rightarrow> string)
   \<Rightarrow> (wstring \<Rightarrow> error + inf_file) \<Rightarrow> wstring list \<Rightarrow> run" where
  "main_with_code traverse well_formed utf8 open_file argv =
     (if length argv < 2 then \<lparr>exit_code = invalid_arguments, cout = None, cerr = Some Usage\<rparr>
      else
        case open_file (argv ! 1) of
          Inl e \<Rightarrow> handle e
        | Inr file \<Rightarrow>
            (case select_report_data traverse well_formed utf8 file of
               Inl e \<Rightarrow> handle e
             | Inr r \<Rightarrow> \<lparr>exit_code = success, cout = Some r, cerr = None\<rparr>))"

section \<open>Notions of the specification\<close>

text \<open>
  The definitions of this section are not translations of code: they say in the words of
  the specification what the code is compared with.
\<close>

text \<open>Membership of a name in a set of section names, which ignores letter case.\<close>

definition section_exists :: "section_set \<Rightarrow> section_name \<Rightarrow> bool" where
  "section_exists all_sections n \<longleftrightarrow> (\<exists>s \<in> set all_sections. ci_equal s n)"

text \<open>
  A set of section names holds no two names that are equal up to letter case.
\<close>

definition unique_names :: "section_set \<Rightarrow> bool" where
  "unique_names all_sections \<longleftrightarrow>
     (\<forall>s \<in> set all_sections. \<forall>t \<in> set all_sections. ci_equal s t \<longrightarrow> s = t)"

text \<open>
  The pairs of the Section Correlator as the specification lists them: the base section
  under the empty tag if it exists, then for each qualifier in declared order the section
  named base, dot, qualifier, if it exists.
\<close>

definition correlation_spec ::
  "manufacturer_line \<Rightarrow> section_set \<Rightarrow> (wstring \<times> section_name) list" where
  "correlation_spec m all_sections =
     (if section_exists all_sections (models_section_name m)
      then [([], models_section_name m)] else [])
     @ concat (map (\<lambda>q. if section_exists all_sections (models_section_name m @ ''.'' @ q)
                          then [(q, models_section_name m @ ''.'' @ q)] else [])
                   (manufacturer_line.architectures m))"

text \<open>
  The device declaration of a line that has at least one field: field 0 is the install
  section, the fields after it are the hardware ids.
\<close>

definition device_of_line :: "line \<Rightarrow> device_description_line" where
  "device_of_line l =
     \<lparr>device_description = key l,
      install_section = hd (line_fields l),
      hardware_ids = tl (line_fields l)\<rparr>"

text \<open>
  The manufacturer declaration of a line: the key is the display name, field 0 the base
  section name, which defaults to the display name, and the fields after it are the
  architecture qualifiers.
\<close>

definition manufacturer_of_line :: "line \<Rightarrow> manufacturer_line" where
  "manufacturer_of_line l =
     \<lparr>manufacturer_line.name = key l,
      models_section_name = (if line_fields l = [] then key l else hd (line_fields l)),
      architectures = tl (line_fields l)\<rparr>"

text \<open>
  An observation is a device declaration together with the architecture tag of the
  section it was read from. The observations of a manufacturer are those of its correlated
  sections in the order of the Correlator, the lines of each section in file order.
\<close>

type_synonym observation = "wstring \<times> device_description_line"

definition observed_devices :: "inf_file \<Rightarrow> models_sections_correlation list \<Rightarrow> observation list" where
  "observed_devices file cs =
     concat (map (\<lambda>c. map (\<lambda>l. (architecture c, device_of_line l))
                          (section_lines file (models_section c))) cs)"

text \<open>
  An observation observes a key when the key of its declaration equals that key. The
  tags of a key are the tags of the observations that observe it, in order.
\<close>

definition observes :: "model_key \<Rightarrow> observation \<Rightarrow> bool" where
  "observes k ob \<longleftrightarrow> model_key_eq (device_key (snd ob)) k"

definition tags_of :: "observation list \<Rightarrow> model_key \<Rightarrow> wstring list" where
  "tags_of obs k = map fst (filter (observes k) obs)"

text \<open>
  First-discovery order: the first observation gives the first model, under the key of
  that declaration as it is written there and with the tags of every observation of that
  key; the models after it are those of the observations of other keys, in the same way.
\<close>

fun discovery_models :: "observation list \<Rightarrow> model_data" where
  "discovery_models [] = []"
| "discovery_models (ob # obs) =
     (device_key (snd ob), fst ob # tags_of obs (device_key (snd ob)))
     # discovery_models (filter (\<lambda>ob'. \<not> observes (device_key (snd ob)) ob') obs)"

text \<open>
  The position at which a key is first observed: the number of observations before the
  first one that observes it.
\<close>

definition first_index :: "observation list \<Rightarrow> model_key \<Rightarrow> nat" where
  "first_index obs k = length (takeWhile (\<lambda>ob. \<not> observes k ob) obs)"

text \<open>
  A device line without any field somewhere in the given correlated sections.
\<close>

definition zero_field_line :: "inf_file \<Rightarrow> models_sections_correlation list \<Rightarrow> bool" where
  "zero_field_line file cs \<longleftrightarrow>
     (\<exists>c \<in> set cs. \<exists>l \<in> set (section_lines file (models_section c)). line_size l = 0)"

text \<open>
  The model of an entry of the map once all its texts are converted, and the condition
  under which they all convert.
\<close>

definition model_of :: "(wstring \<Rightarrow> string) \<Rightarrow> model_key \<times> wstring list \<Rightarrow> model" where
  "model_of utf8 entry =
     \<lparr>model.description = utf8 (model_key.description (fst entry)),
      hardware_ids = map utf8 (model_key.hardware_ids (fst entry)),
      architectures = map utf8 (snd entry)\<rparr>"

definition entry_convertible :: "(wstring \<Rightarrow> bool) \<Rightarrow> model_key \<times> wstring list \<Rightarrow> bool" where
  "entry_convertible well_formed entry \<longleftrightarrow>
     well_formed (model_key.description (fst entry))
     \<and> (\<forall>s \<in> set (model_key.hardware_ids (fst entry)). well_formed s)
     \<and> (\<forall>s \<in> set (snd entry). well_formed s)"

text \<open>
  The report entry of a manufacturer when nothing fails: its name, and the models of its
  observations as the container hands them out.
\<close>

definition entry_of ::
  "(model_data \<Rightarrow> model_data) \<Rightarrow> (wstring \<Rightarrow> string) \<Rightarrow> inf_file \<Rightarrow> section_set
   \<Rightarrow> manufacturer_line \<Rightarrow> manufacturer" where
  "entry_of traverse utf8 file S m =
     \<lparr>manufacturer.name = utf8 (manufacturer_line.name m),
      devices = map (model_of utf8)
        (traverse (discovery_models (observed_devices file (correlate_models_sections m S))))\<rparr>"

text \<open>
  Every text of a manufacturer that goes into the report converts: its name, and the
  texts of the entries that the container hands out for it.
\<close>

definition convertible ::
  "(wstring \<Rightarrow> bool) \<Rightarrow> (model_data \<Rightarrow> model_data) \<Rightarrow> inf_file \<Rightarrow> section_set
   \<Rightarrow> manufacturer_line \<Rightarrow> bool" where
  "convertible well_formed traverse file S m \<longleftrightarrow>
     well_formed (manufacturer_line.name m)
     \<and> (\<forall>entry \<in> set (traverse (discovery_models
            (observed_devices file (correlate_models_sections m S)))).
          entry_convertible well_formed entry)"

text \<open>
  A document in which the install-section field of device lines is replaced: field 0 of
  every line that has one, in every section but the manufacturer section, whose field 0
  is a section name of another kind.
\<close>

definition replace_install_section :: "(line \<Rightarrow> section_name) \<Rightarrow> line \<Rightarrow> line" where
  "replace_install_section f l =
     (if line_fields l = [] then l else l\<lparr>line_fields := f l # tl (line_fields l)\<rparr>)"

definition with_install_sections :: "(line \<Rightarrow> section_name) \<Rightarrow> inf_file \<Rightarrow> inf_file" where
  "with_install_sections f file =
     map (\<lambda>s. if ci_equal (fst s) ''Manufacturer'' then s
              else (fst s, map (replace_install_section f) (snd s))) file"

section \<open>Auxiliary notions of the proofs\<close>

text \<open>
  The two inner loops of \<^verbatim>\<open>select_report_data\<close> as one pass over the observations, and
  the invariant of the map: no two of its keys are equal.
\<close>

definition aggregate_all :: "observation list \<Rightarrow> model_data \<Rightarrow> model_data" where
  "aggregate_all obs md = foldl (\<lambda>md ob. aggregate_device (fst ob) (snd ob) md) md obs"

definition distinct_keys :: "model_data \<Rightarrow> bool" where
  "distinct_keys md = sorted_wrt (\<lambda>e e'. \<not> model_key_eq (fst e) (fst e')) md"

text \<open>A manufacturer on which the run fails: a line without fields, or text that does not convert.\<close>

definition fails ::
  "(wstring \<Rightarrow> bool) \<Rightarrow> (model_data \<Rightarrow> model_data) \<Rightarrow> inf_file \<Rightarrow> section_set
   \<Rightarrow> manufacturer_line \<Rightarrow> bool" where
  "fails well_formed traverse file S m \<longleftrightarrow>
     zero_field_line file (correlate_models_sections m S)
     \<or> \<not> convertible well_formed traverse file S m"

section \<open>Example documents\<close>

text \<open>
  A document with three manufacturers. The first declares two qualifiers, of which only
  one has a section; section names differ from the declared names in letter case. The
  second has no section at all. The second document has a device line without fields.
\<close>

definition example_file :: inf_file where
  "example_file =
     [(''Manufacturer'',
         [\<lparr>key = ''Acme Corp'', line_fields = [''Acme'', ''ntx86'', ''ntamd64'']\<rparr>,
          \<lparr>key = ''Nobody'', line_fields = []\<rparr>,
          \<lparr>key = ''Initech'', line_fields = [''Ini'']\<rparr>]),
      (''acme'',
         [\<lparr>key = ''D1'', line_fields = [''Sx'', ''HW1'', ''C1'']\<rparr>,
          \<lparr>key = ''D2'', line_fields = [''Sx'']\<rparr>,
          \<lparr>key = ''d1'', line_fields = [''Sz'', ''HW1'', ''C1'']\<rparr>]),
      (''Acme.NTamd64'',
         [\<lparr>key = ''d1'', line_fields = [''Sy'', ''HW1'', ''C1'']\<rparr>,
          \<lparr>key = ''D1'', line_fields = [''Sy'', ''hw1'', ''C1'']\<rparr>]),
      (''INI'', [\<lparr>key = ''Printer'', line_fields = [''P'', ''USB_1'']\<rparr>])]"

definition broken_file :: inf_file where
  "broken_file =
     [(''Manufacturer'',
         [\<lparr>key = ''Acme Corp'', line_fields = [''Acme'', ''ntamd64'']\<rparr>]),
      (''Acme'', [\<lparr>key = ''D1'', line_fields = [''Sx'', ''HW1'']\<rparr>]),
      (''Acme.ntamd64'',
         [\<lparr>key = ''D2'', line_fields = [''Sy'', ''HW2'']\<rparr>,
          \<lparr>key = ''D3'', line_fields = []\<rparr>])]"

text \<open>
  In the examples the code unit \<open>0xD8\<close> stands for an unpaired surrogate: a text is well
  formed when it holds none. The third document has such a unit in a device description
  of its first manufacturer, and a device line without fields under its second.
\<close>

definition example_well_formed :: "wstring \<Rightarrow> bool" where
  "example_well_formed s \<longleftrightarrow> CHR 0xD8 \<notin> set s"

definition garbled_file :: inf_file where
  "garbled_file =
     [(''Manufacturer'',
         [\<lparr>key = ''First'', line_fields = [''One'']\<rparr>,
          \<lparr>key = ''Second'', line_fields = [''Two'']\<rparr>]),
      (''One'', [\<lparr>key = [CHR ''D'', CHR 0xD8], line_fields = [''Sx'', ''HW1'']\<rparr>]),
      (''Two'', [\<lparr>key = ''D2'', line_fields = []\<rparr>])]"

definition garbled_sections :: section_set where
  "garbled_sections = [''Manufacturer'', ''One'', ''Two'']"

definition garbled_manufacturers :: "manufacturer_line list" where
  "garbled_manufacturers =
     [\<lparr>manufacturer_line.name = ''First'', models_section_name = ''One'',
       architectures = []\<rparr>,
      \<lparr>manufacturer_line.name = ''Second'', models_section_name = ''Two'',
       architectures = []\<rparr>]"

definition open_example :: "wstring \<Rightarrow> error + inf_file" where
  "open_example path =
     (if path = ''example.inf'' then Inr example_file
      else if path = ''broken.inf'' then Inr broken_file
      else if path = ''garbled.inf'' then Inr garbled_file
      else Inl UnclassifiedError)"

text \<open>
  What the readers find in the two documents.
\<close>

definition example_sections :: section_set where
  "example_sections = [''Manufacturer'', ''acme'', ''Acme.NTamd64'', ''INI'']"

definition example_manufacturers :: "manufacturer_line list" where
  "example_manufacturers =
     [\<lparr>manufacturer_line.name = ''Acme Corp'', models_section_name = ''Acme'',
       architectures = [''ntx86'', ''ntamd64'']\<rparr>,
      \<lparr>manufacturer_line.name = ''Nobody'', models_section_name = ''Nobody'',
       architectures = []\<rparr>,
      \<lparr>manufacturer_line.name = ''Initech'', models_section_name = ''Ini'',
       architectures = []\<rparr>]"

definition broken_sections :: section_set where
  "broken_sections = [''Manufacturer'', ''Acme'', ''Acme.ntamd64'']"

definition broken_manufacturers :: "manufacturer_line list" where
  "broken_manufacturers =
     [\<lparr>manufacturer_line.name = ''Acme Corp'', models_section_name = ''Acme'',
       architectures = [''ntamd64'']\<rparr>]"

text \<open>
  The report of the first document when the map is iterated from its last entry to its
  first.
\<close>

definition example_report_reversed :: report where
  "example_report_reversed =
     [\<lparr>manufacturer.name = ''Acme Corp'',
       devices =
         [\<lparr>model.description = ''D1'', hardware_ids = [''hw1'', ''C1''],
           architectures = [''ntamd64'']\<rparr>,
          \<lparr>model.description = ''D2'', hardware_ids = [], architectures = ['''']\<rparr>,
          \<lparr>model.description = ''D1'', hardware_ids = [''HW1'', ''C1''],
           architectures = ['''', '''', ''ntamd64'']\<rparr>]\<rparr>,
      \<lparr>manufacturer.name = ''Nobody'', devices = []\<rparr>,
      \<lparr>manufacturer.name = ''Initech'',
       devices =
         [\<lparr>model.description = ''Printer'', hardware_ids = [''USB_1''],
           architectures = ['''']\<rparr>]\<rparr>]"

section \<open>Case-insensitive text and model keys\<close>

lemma ci_equal_refl: "ci_equal a a"
  by (simp add: ci_equal_def)

lemma ci_equal_sym: "ci_equal a b \<Longrightarrow> ci_equal b a"
  by (simp add: ci_equal_def)

lemma ci_equal_trans: "ci_equal a b \<Longrightarrow> ci_equal b c \<Longrightarrow> ci_equal a c"
  by (simp add: ci_equal_def)

lemma ranges_equal_iff: "ranges_equal xs ys \<longleftrightarrow> xs = ys"
  by (induction xs ys rule: ranges_equal.induct) auto

lemma model_key_eq_refl: "model_key_eq k k"
  by (simp add: model_key_eq_def ci_equal_refl ranges_equal_iff)

lemma model_key_eq_sym: "model_key_eq a b \<Longrightarrow> model_key_eq b a"
  by (auto simp: model_key_eq_def ranges_equal_iff intro: ci_equal_sym)

lemma model_key_eq_trans: "model_key_eq a b \<Longrightarrow> model_key_eq b c \<Longrightarrow> model_key_eq a c"
  by (auto simp: model_key_eq_def ranges_equal_iff intro: ci_equal_trans)

text \<open>
  Claim C3. Two model keys are equal exactly when their descriptions are equal up to letter
  case and their hardware-id sequences have the same length and the same element at every
  position, compared exactly. Hardware ids that differ only in letter case therefore give
  different keys.
\<close>

theorem model_key_eq_iff:
  "model_key_eq left right \<longleftrightarrow>
     ci_equal (model_key.description left) (model_key.description right)
     \<and> length (model_key.hardware_ids left) = length (model_key.hardware_ids right)
     \<and> (\<forall>i < length (model_key.hardware_ids left).
           model_key.hardware_ids left ! i = model_key.hardware_ids right ! i)"
  by (simp add: model_key_eq_def ranges_equal_iff list_eq_iff_nth_eq)

theorem model_key_eq_iff_witness:
  "model_key_eq \<lparr>model_key.description = ''D1'', hardware_ids = [''HW1'', ''C1'']\<rparr>
                \<lparr>model_key.description = ''d1'', hardware_ids = [''HW1'', ''C1'']\<rparr>
   \<and> \<not> model_key_eq \<lparr>model_key.description = ''D1'', hardware_ids = [''HW1'']\<rparr>
                     \<lparr>model_key.description = ''D1'', hardware_ids = [''hw1'']\<rparr>
   \<and> \<not> model_key_eq \<lparr>model_key.description = ''D1'', hardware_ids = [''HW1'', ''C1'']\<rparr>
                     \<lparr>model_key.description = ''D1'', hardware_ids = [''C1'', ''HW1'']\<rparr>"
  using model_key_eq_iff [of "\<lparr>model_key.description = ''D1'', hardware_ids = [''HW1'', ''C1'']\<rparr>"
                             "\<lparr>model_key.description = ''d1'', hardware_ids = [''HW1'', ''C1'']\<rparr>"]
        model_key_eq_iff [of "\<lparr>model_key.description = ''D1'', hardware_ids = [''HW1'']\<rparr>"
                             "\<lparr>model_key.description = ''D1'', hardware_ids = [''hw1'']\<rparr>"]
        model_key_eq_iff [of "\<lparr>model_key.description = ''D1'', hardware_ids = [''HW1'', ''C1'']\<rparr>"
                             "\<lparr>model_key.description = ''D1'', hardware_ids = [''C1'', ''HW1'']\<rparr>"]
  by (auto simp: ci_equal_def to_lower_def)

section \<open>The example documents, evaluated\<close>

lemma example_sections_eq: "extract_sections example_file = Inr example_sections"
  by code_simp

lemma example_manufacturers_eq: "extract_manufacturers example_file = Inr example_manufacturers"
  by code_simp

lemma example_report_reversed_eq:
  "select_report_data rev example_well_formed id example_file = Inr example_report_reversed"
  by code_simp

lemma iteration_order_rev: "iteration_order rev"
  by (simp add: iteration_order_def)

section \<open>The Section Correlator\<close>

lemma set_find_Some: "set_find S n = Some s \<Longrightarrow> s \<in> set S \<and> ci_equal s n"
  unfolding set_find_def by (induction S) (auto split: if_splits)

lemma set_find_None: "set_find S n = None \<longleftrightarrow> \<not> section_exists S n"
  unfolding set_find_def section_exists_def by (auto simp: find_None_iff)

lemma correlate_architectures_section:
  "c \<in> set (correlate_architectures m S qs) \<Longrightarrow> models_section c \<in> set S"
  by (induction qs) (auto simp: Let_def split: option.splits dest: set_find_Some [OF sym])

lemma correlate_models_sections_section:
  "c \<in> set (correlate_models_sections m S) \<Longrightarrow> models_section c \<in> set S"
  by (auto simp: correlate_models_sections_def split: option.splits
      dest: set_find_Some [OF sym] correlate_architectures_section)

lemma correlate_architectures_spec:
  "list_all2 (\<lambda>c p. architecture c = fst p \<and> ci_equal (models_section c) (snd p)
                     \<and> models_section c \<in> set S)
     (correlate_architectures m S qs)
     (concat (map (\<lambda>q. if section_exists S (models_section_name m @ ''.'' @ q)
                         then [(q, models_section_name m @ ''.'' @ q)] else []) qs))"
proof (induction qs)
  case Nil
  show ?case by simp
next
  case (Cons q qs)
  show ?case
  proof (cases "set_find S (models_section_name m @ ''.'' @ q)")
    case None
    then have "\<not> section_exists S (models_section_name m @ ''.'' @ q)"
      by (simp add: set_find_None)
    with None Cons show ?thesis
      by (simp add: delimiter_def)
  next
    case (Some s)
    then have "s \<in> set S" "ci_equal s (models_section_name m @ ''.'' @ q)"
      by (simp_all add: set_find_Some)
    moreover from this have "section_exists S (models_section_name m @ ''.'' @ q)"
      by (auto simp: section_exists_def)
    ultimately show ?thesis using Some Cons
      by (simp add: delimiter_def)
  qed
qed

lemma correlate_models_sections_rel:
  "list_all2 (\<lambda>c p. architecture c = fst p \<and> ci_equal (models_section c) (snd p)
                     \<and> models_section c \<in> set all_sections)
     (correlate_models_sections m all_sections)
     (correlation_spec m all_sections)"
proof -
  let ?R = "\<lambda>c p. architecture c = fst p \<and> ci_equal (models_section c) (snd p)
                     \<and> models_section c \<in> set all_sections"
  have base: "list_all2 ?R
      (case set_find all_sections (models_section_name m) of
         Some s \<Rightarrow> [\<lparr>architecture = [], models_section = s\<rparr>]
       | None \<Rightarrow> [])
      (if section_exists all_sections (models_section_name m)
       then [([], models_section_name m)] else [])"
  proof (cases "set_find all_sections (models_section_name m)")
    case None
    then show ?thesis by (simp add: set_find_None [symmetric])
  next
    case (Some s)
    then have "s \<in> set all_sections" "ci_equal s (models_section_name m)"
      by (simp_all add: set_find_Some)
    moreover from this have "section_exists all_sections (models_section_name m)"
      by (auto simp: section_exists_def)
    ultimately show ?thesis using Some by simp
  qed
  show ?thesis
    unfolding correlate_models_sections_def correlation_spec_def
    by (rule list_all2_appendI [OF base correlate_architectures_spec])
qed

text \<open>
  Claim C2. The values yielded by \<^verbatim>\<open>correlate_models_sections\<close> are, one for one and in
  this order, the pairs that the specification lists: the base section under the empty
  tag if and only if it exists, then one pair per qualifier, in declared order, whose
  composed name exists; nothing else is yielded. The tags are equal. The section yielded
  is the element of the set that the search found: it equals the base or composed name as
  a section name, that is up to letter case, and it is that very name when the set holds
  the name as it is written. The function returns a list and has no failure.
\<close>

theorem correlate_models_sections_spec:
  "list_all2 (\<lambda>c p. architecture c = fst p
                     \<and> models_section c \<in> set all_sections
                     \<and> ci_equal (models_section c) (snd p)
                     \<and> (unique_names all_sections \<and> snd p \<in> set all_sections
                          \<longrightarrow> models_section c = snd p))
     (correlate_models_sections m all_sections)
     (correlation_spec m all_sections)"
  by (rule list_all2_mono [OF correlate_models_sections_rel]) (auto simp: unique_names_def)

text \<open>
  A manufacturer with two qualifiers, one of them without a section, and section names
  that differ from the declared ones in letter case.
\<close>

theorem correlate_models_sections_spec_witness:
  "(correlate_models_sections
     \<lparr>manufacturer_line.name = ''Acme Corp'', models_section_name = ''Acme'',
      architectures = [''ntx86'', ''ntamd64'']\<rparr>
     [''Manufacturer'', ''acme'', ''Acme.NTamd64'', ''Other'']
   = [\<lparr>architecture = [], models_section = ''acme''\<rparr>,
      \<lparr>architecture = ''ntamd64'', models_section = ''Acme.NTamd64''\<rparr>])
   \<and> (correlation_spec
     \<lparr>manufacturer_line.name = ''Acme Corp'', models_section_name = ''Acme'',
      architectures = [''ntx86'', ''ntamd64'']\<rparr>
     [''Manufacturer'', ''acme'', ''Acme.NTamd64'', ''Other'']
   = [([], ''Acme''), (''ntamd64'', ''Acme.ntamd64'')])"
proof -
  have "correlation_spec
     \<lparr>manufacturer_line.name = ''Acme Corp'', models_section_name = ''Acme'',
      architectures = [''ntx86'', ''ntamd64'']\<rparr>
     [''Manufacturer'', ''acme'', ''Acme.NTamd64'', ''Other'']
   = [([], ''Acme''), (''ntamd64'', ''Acme.ntamd64'')]"
    by code_simp
  moreover have "correlate_models_sections
     \<lparr>manufacturer_line.name = ''Acme Corp'', models_section_name = ''Acme'',
      architectures = [''ntx86'', ''ntamd64'']\<rparr>
     [''Manufacturer'', ''acme'', ''Acme.NTamd64'', ''Other'']
   = [\<lparr>architecture = [], models_section = ''acme''\<rparr>,
      \<lparr>architecture = ''ntamd64'', models_section = ''Acme.NTamd64''\<rparr>]"
    by code_simp
  ultimately show ?thesis
    using correlate_models_sections_spec
     [where m = "\<lparr>manufacturer_line.name = ''Acme Corp'', models_section_name = ''Acme'',
                   architectures = [''ntx86'', ''ntamd64'']\<rparr>"
        and all_sections = "[''Manufacturer'', ''acme'', ''Acme.NTamd64'', ''Other'']"]
    by simp
qed

section \<open>The readers\<close>

lemma fields_from_1_tl: "fields_from_1 l = tl (line_fields l)"
proof (cases "line_fields l")
  case Nil
  then show ?thesis
    by (simp add: fields_from_1_def line_size_def)
next
  case (Cons x xs)
  have "map ((!) (x # xs)) [1..<Suc (length xs)] = map ((!) (x # xs)) (map Suc [0..<length xs])"
    by (simp add: map_Suc_upt)
  also have "\<dots> = map ((!) xs) [0..<length xs]"
    by simp
  also have "\<dots> = xs"
    by (rule map_nth)
  finally have "map ((!) (x # xs)) [1..<Suc (length xs)] = xs" .
  moreover have "field_at l = (!) (x # xs)"
    by (simp add: fun_eq_iff field_at_def Cons)
  ultimately show ?thesis
    using Cons by (simp add: fields_from_1_def line_size_def del: upt_Suc)
qed

lemma manufacturer_visitor_eq:
  "manufacturer_visitor l result = Inr (move_next, result @ [manufacturer_of_line l])"
  unfolding manufacturer_visitor_def manufacturer_of_line_def Let_def
  by (cases "line_fields l") (auto simp: fields_from_1_tl line_size_def field_at_def hd_conv_nth)

lemma enumerate_manufacturer_visitor:
  "enumerate_with manufacturer_visitor ls acc = Inr (acc @ map manufacturer_of_line ls)"
  by (induction ls arbitrary: acc) (simp_all add: manufacturer_visitor_eq)

lemma extract_manufacturers_eq:
  "extract_manufacturers file =
     (if has_section file ''Manufacturer''
      then Inr (map manufacturer_of_line (section_lines file ''Manufacturer''))
      else Inl MissingSectionError)"
  by (simp add: extract_manufacturers_def for_each_line_def enumerate_manufacturer_visitor)

lemma enumerate_section_visitor:
  "enumerate_with section_visitor ns acc = Inr (foldl set_emplace acc ns)"
  by (induction ns arbitrary: acc) (simp_all add: section_visitor_def)

lemma set_emplace_subset: "set (set_emplace S n) \<subseteq> insert n (set S)"
  by (auto simp: set_emplace_def split: option.splits)

lemma foldl_set_emplace_subset: "set (foldl set_emplace acc ns) \<subseteq> set acc \<union> set ns"
proof (induction ns arbitrary: acc)
  case Nil
  show ?case by simp
next
  case (Cons n ns)
  show ?case
    using Cons [of "set_emplace acc n"] set_emplace_subset [of acc n] by auto
qed

lemma extract_sections_total: "\<exists>S. extract_sections file = Inr S"
  by (simp add: extract_sections_def for_each_section_def enumerate_section_visitor)

lemma extract_sections_has_section:
  assumes "extract_sections file = Inr S" and "s \<in> set S"
  shows "has_section file s"
proof -
  have "S = foldl set_emplace [] (map fst file)"
    using assms(1) by (simp add: extract_sections_def for_each_section_def enumerate_section_visitor)
  then have "s \<in> fst ` set file"
    using foldl_set_emplace_subset [of "[]" "map fst file"] assms(2) by auto
  then show ?thesis
    by (auto simp: has_section_def intro: ci_equal_refl)
qed

lemma unique_names_set_emplace: "unique_names S \<Longrightarrow> unique_names (set_emplace S n)"
proof (cases "set_find S n")
  case None
  assume u: "unique_names S"
  from None have "\<not> ci_equal s n" if "s \<in> set S" for s
    using that by (auto simp: set_find_None section_exists_def)
  with u show ?thesis
    using None ci_equal_sym by (auto simp: set_emplace_def unique_names_def)
next
  case (Some s)
  assume "unique_names S"
  with Some show ?thesis by (simp add: set_emplace_def)
qed

lemma unique_names_foldl: "unique_names acc \<Longrightarrow> unique_names (foldl set_emplace acc ns)"
  by (induction ns arbitrary: acc) (simp_all add: unique_names_set_emplace)

lemma extract_sections_unique_names: "extract_sections file = Inr S \<Longrightarrow> unique_names S"
  using unique_names_foldl [of "[]" "map fst file"]
  by (auto simp: extract_sections_def for_each_section_def enumerate_section_visitor unique_names_def)

lemma device_visitor_eq:
  "device_visitor l result =
     (if line_fields l = [] then Inl MissingInstallSectionError
      else Inr (move_next, result @ [device_of_line l]))"
  unfolding device_visitor_def device_of_line_def Let_def
  by (cases "line_fields l") (auto simp: fields_from_1_tl line_size_def field_at_def hd_conv_nth)

lemma enumerate_device_visitor:
  "enumerate_with device_visitor ls acc =
     (if \<exists>l \<in> set ls. line_fields l = [] then Inl MissingInstallSectionError
      else Inr (acc @ map device_of_line ls))"
  by (induction ls arbitrary: acc) (auto simp: device_visitor_eq)

lemma extract_device_descriptions_eq:
  "has_section file s \<Longrightarrow>
   extract_device_descriptions file s =
     (if \<exists>l \<in> set (section_lines file s). line_size l = 0 then Inl MissingInstallSectionError
      else Inr (map device_of_line (section_lines file s)))"
  by (simp add: extract_device_descriptions_def for_each_line_def enumerate_device_visitor line_size_def)

text \<open>
  Claim C5, amended. Parsing the device lines of a section fails exactly when one of its
  lines has no field at all. Otherwise every line gives a declaration whose hardware ids
  are the fields after field 0; a line with the install-section field alone gives a
  declaration with an empty hardware-id sequence.
\<close>

theorem extract_device_descriptions_fails_iff_zero_fields:
  assumes "has_section file s"
  shows "extract_device_descriptions file s =
     (if \<exists>l \<in> set (section_lines file s). line_size l = 0
      then Inl MissingInstallSectionError
      else Inr (map (\<lambda>l. \<lparr>device_description = key l,
                           install_section = field_at l 0,
                           hardware_ids = tl (line_fields l)\<rparr>) (section_lines file s)))"
proof -
  have "map device_of_line ls = map (\<lambda>l. \<lparr>device_description = key l,
                           install_section = field_at l 0,
                           hardware_ids = tl (line_fields l)\<rparr>) ls"
    if "\<forall>l \<in> set ls. line_fields l \<noteq> []" for ls
    using that by (auto simp: device_of_line_def field_at_def hd_conv_nth)
  then show ?thesis
    using assms
    by (auto simp: extract_device_descriptions_def for_each_line_def enumerate_device_visitor line_size_def)
qed

text \<open>
  A section whose second line has the install-section field alone, and a section with a
  line without fields.
\<close>

theorem extract_device_descriptions_fails_iff_zero_fields_witness:
  "has_section example_file ''Acme''
   \<and> extract_device_descriptions example_file ''Acme'' =
       Inr [\<lparr>device_description = ''D1'', install_section = ''Sx'', hardware_ids = [''HW1'', ''C1'']\<rparr>,
            \<lparr>device_description = ''D2'', install_section = ''Sx'', hardware_ids = []\<rparr>,
            \<lparr>device_description = ''d1'', install_section = ''Sz'', hardware_ids = [''HW1'', ''C1'']\<rparr>]
   \<and> has_section broken_file ''Acme.ntamd64''
   \<and> extract_device_descriptions broken_file ''Acme.ntamd64'' = Inl MissingInstallSectionError"
proof -
  have h1: "has_section example_file ''Acme''" by code_simp
  have h2: "has_section broken_file ''Acme.ntamd64''" by code_simp
  have l1: "section_lines example_file ''Acme'' = [\<lparr>key = ''D1'', line_fields = [''Sx'', ''HW1'', ''C1'']\<rparr>,
          \<lparr>key = ''D2'', line_fields = [''Sx'']\<rparr>,
          \<lparr>key = ''d1'', line_fields = [''Sz'', ''HW1'', ''C1'']\<rparr>]" by code_simp
  have l2: "section_lines broken_file ''Acme.ntamd64'' = [\<lparr>key = ''D2'', line_fields = [''Sy'', ''HW2'']\<rparr>,
          \<lparr>key = ''D3'', line_fields = []\<rparr>]" by code_simp
  show ?thesis
    using extract_device_descriptions_fails_iff_zero_fields [OF h1]
      extract_device_descriptions_fails_iff_zero_fields [OF h2] h1 h2
    by (simp add: l1 l2 line_size_def field_at_def)
qed

text \<open>
  Claim C5 as stated fails: a line with its install-section field and nothing else is
  parsed without error into a declaration whose hardware-id sequence is empty.
\<close>

theorem empty_hardware_ids_counterexample:
  "extract_device_descriptions [(''Acme'', [\<lparr>key = ''D1'', line_fields = [''S1'']\<rparr>])] ''Acme''
   = Inr [\<lparr>device_description = ''D1'', install_section = ''S1'', hardware_ids = []\<rparr>]"
  by code_simp

section \<open>The aggregation step\<close>

lemma hash_model_key_agrees:
  assumes "\<And>a b. ci_equal a b \<Longrightarrow> hash_key_name a = hash_key_name b"
    and "model_key_eq left right"
  shows "hash_model_key hash_key_name hasher left = hash_model_key hash_key_name hasher right"
proof -
  from assms(2) have "ci_equal (model_key.description left) (model_key.description right)"
    and ids: "model_key.hardware_ids left = model_key.hardware_ids right"
    by (simp_all add: model_key_eq_def ranges_equal_iff)
  from assms(1) [OF this(1)] ids show ?thesis
    by (simp add: hash_model_key_def)
qed

lemma map_find_None_iff: "map_find md k = None \<longleftrightarrow> (\<forall>k' \<in> fst ` set md. \<not> model_key_eq k' k)"
  by (induction md k rule: map_find.induct) simp_all

lemma keys_emplace_back_found [simp]: "map fst (emplace_back_found md k a) = map fst md"
  by (induction md) auto

lemma map_find_emplace_back_found:
  "map_find (emplace_back_found md k a) k' =
     (if model_key_eq k k' then map_option (\<lambda>v. v @ [a]) (map_find md k') else map_find md k')"
proof (induction md)
  case Nil
  show ?case by simp
next
  case (Cons e md)
  obtain k0 v where e: "e = (k0, v)" by (cases e)
  show ?case
    using Cons model_key_eq_trans [of k0 k k'] model_key_eq_trans [of k k0 k']
      model_key_eq_trans [of k0 k' k] model_key_eq_sym [of k k'] model_key_eq_sym [of k0 k]
    by (auto simp: e)
qed

lemma map_find_key_eq: "model_key_eq k k' \<Longrightarrow> map_find md k = map_find md k'"
proof (induction md)
  case Nil
  show ?case by simp
next
  case (Cons e md)
  obtain k0 v where e: "e = (k0, v)" by (cases e)
  from Cons.prems have "model_key_eq k0 k \<longleftrightarrow> model_key_eq k0 k'"
    using model_key_eq_trans [of k0 k k'] model_key_eq_trans [of k0 k' k] model_key_eq_sym [of k k']
    by blast
  with Cons show ?case by (simp add: e)
qed

lemma emplace_back_found_key_eq:
  "model_key_eq k k' \<Longrightarrow> emplace_back_found md k a = emplace_back_found md k' a"
proof (induction md)
  case Nil
  show ?case by simp
next
  case (Cons e md)
  obtain k0 v where e: "e = (k0, v)" by (cases e)
  from Cons.prems have "model_key_eq k0 k \<longleftrightarrow> model_key_eq k0 k'"
    using model_key_eq_trans [of k0 k k'] model_key_eq_trans [of k0 k' k] model_key_eq_sym [of k k']
    by blast
  with Cons show ?case by (simp add: e)
qed

lemma aggregate_device_merge:
  assumes "model_key_eq (device_key d) (device_key d')"
    and "map_find md (device_key d) = Some tags"
  shows "aggregate_device a d' md = aggregate_device a d md"
  using assms map_find_key_eq [OF assms(1), of md]
    emplace_back_found_key_eq [OF assms(1), of md a]
  by (simp add: aggregate_device_def)

text \<open>
  Claim C6. One step of the aggregation, for a device under the tag \<open>arch\<close>. If the key
  of the device is in the map with tags \<open>tags\<close>, then afterwards the map has the same keys
  in the same order, that key has the tags \<open>tags @ [arch]\<close>, whether or not \<open>arch\<close> was
  among them, and every other key has the tags it had. If the key is not in the map, the
  map gains one entry, the key with the single tag \<open>arch\<close>.
\<close>

theorem aggregate_device_step:
  "(\<forall>tags. map_find md (device_key d) = Some tags \<longrightarrow>
      map fst (aggregate_device arch d md) = map fst md
      \<and> map_find (aggregate_device arch d md) (device_key d) = Some (tags @ [arch])
      \<and> (\<forall>k. \<not> model_key_eq (device_key d) k \<longrightarrow>
            map_find (aggregate_device arch d md) k = map_find md k))
   \<and> (map_find md (device_key d) = None \<longrightarrow>
        aggregate_device arch d md = md @ [(device_key d, [arch])])"
  by (auto simp: aggregate_device_def map_find_emplace_back_found model_key_eq_refl map_insert_def)

text \<open>
  A step on a key that the map holds under the very tag of the step, and a step on a key
  whose hardware id differs in letter case from one in the map.
\<close>

theorem aggregate_device_step_witness:
  "map_find [(\<lparr>model_key.description = ''D2'', hardware_ids = [''HW2'']\<rparr>, ['''']),
             (\<lparr>model_key.description = ''D1'', hardware_ids = [''HW1'']\<rparr>, ['''', ''ntamd64''])]
     (device_key \<lparr>device_description = ''d1'', install_section = ''S'', hardware_ids = [''HW1'']\<rparr>)
     = Some ['''', ''ntamd64'']
   \<and> aggregate_device ''ntamd64''
       \<lparr>device_description = ''d1'', install_section = ''S'', hardware_ids = [''HW1'']\<rparr>
       [(\<lparr>model_key.description = ''D2'', hardware_ids = [''HW2'']\<rparr>, ['''']),
        (\<lparr>model_key.description = ''D1'', hardware_ids = [''HW1'']\<rparr>, ['''', ''ntamd64''])]
     = [(\<lparr>model_key.description = ''D2'', hardware_ids = [''HW2'']\<rparr>, ['''']),
        (\<lparr>model_key.description = ''D1'', hardware_ids = [''HW1'']\<rparr>,
         ['''', ''ntamd64'', ''ntamd64''])]
   \<and> map_find [(\<lparr>model_key.description = ''D2'', hardware_ids = [''HW2'']\<rparr>, ['''']),
             (\<lparr>model_key.description = ''D1'', hardware_ids = [''HW1'']\<rparr>, ['''', ''ntamd64''])]
     (device_key \<lparr>device_description = ''d1'', install_section = ''S'', hardware_ids = [''hw1'']\<rparr>)
     = None
   \<and> aggregate_device ''ntamd64''
       \<lparr>device_description = ''d1'', install_section = ''S'', hardware_ids = [''hw1'']\<rparr>
       [(\<lparr>model_key.description = ''D2'', hardware_ids = [''HW2'']\<rparr>, ['''']),
        (\<lparr>model_key.description = ''D1'', hardware_ids = [''HW1'']\<rparr>, ['''', ''ntamd64''])]
     = [(\<lparr>model_key.description = ''D2'', hardware_ids = [''HW2'']\<rparr>, ['''']),
        (\<lparr>model_key.description = ''D1'', hardware_ids = [''HW1'']\<rparr>, ['''', ''ntamd64'']),
        (\<lparr>model_key.description = ''d1'', hardware_ids = [''hw1'']\<rparr>, [''ntamd64''])]"
proof -
  let ?md = "[(\<lparr>model_key.description = ''D2'', hardware_ids = [''HW2'']\<rparr>, ['''']),
             (\<lparr>model_key.description = ''D1'', hardware_ids = [''HW1'']\<rparr>, ['''', ''ntamd64''])]"
  let ?d1 = "\<lparr>device_description = ''d1'', install_section = ''S'', hardware_ids = [''HW1'']\<rparr>"
  let ?d2 = "\<lparr>device_description = ''d1'', install_section = ''S'', hardware_ids = [''hw1'']\<rparr>"
  have f1: "map_find ?md (device_key ?d1) = Some ['''', ''ntamd64'']"
    by code_simp
  have f2: "map_find ?md (device_key ?d2) = None"
    by code_simp
  have a1: "aggregate_device ''ntamd64'' ?d1 ?md
     = [(\<lparr>model_key.description = ''D2'', hardware_ids = [''HW2'']\<rparr>, ['''']),
        (\<lparr>model_key.description = ''D1'', hardware_ids = [''HW1'']\<rparr>,
         ['''', ''ntamd64'', ''ntamd64''])]"
    by code_simp
  have k2: "device_key ?d2 = \<lparr>model_key.description = ''d1'', hardware_ids = [''hw1'']\<rparr>"
    by (simp add: device_key_def)
  from aggregate_device_step [of ?md ?d1 "''ntamd64''"]
    aggregate_device_step [of ?md ?d2 "''ntamd64''"]
  show ?thesis
    using f1 f2 a1 by (simp add: k2)
qed

section \<open>Aggregation yields first-discovery order\<close>

lemma aggregate_all_Nil [simp]: "aggregate_all [] md = md"
  by (simp add: aggregate_all_def)

lemma aggregate_all_Cons [simp]:
  "aggregate_all (ob # obs) md = aggregate_all obs (aggregate_device (fst ob) (snd ob) md)"
  by (simp add: aggregate_all_def)

lemma aggregate_all_append:
  "aggregate_all (obs @ obs') md = aggregate_all obs' (aggregate_all obs md)"
  by (simp add: aggregate_all_def)

lemma aggregate_section_eq:
  "aggregate_section arch ds md = aggregate_all (map (Pair arch) ds) md"
  by (induction ds arbitrary: md) simp_all

lemma emplace_back_found_eq:
  "distinct_keys md \<Longrightarrow>
     emplace_back_found md k a = map (\<lambda>e. (fst e, if model_key_eq (fst e) k then snd e @ [a] else snd e)) md"
proof (induction md)
  case Nil
  show ?case by simp
next
  case (Cons e md)
  obtain k0 v where e: "e = (k0, v)" by (cases e)
  show ?case
  proof (cases "model_key_eq k0 k")
    case True
    have "\<not> model_key_eq (fst e') k" if "e' \<in> set md" for e'
      using that Cons.prems True model_key_eq_trans [of k0 k "fst e'"] model_key_eq_sym [of "fst e'" k]
      by (auto simp: distinct_keys_def e)
    then have "map (\<lambda>e. (fst e, if model_key_eq (fst e) k then snd e @ [a] else snd e)) md = md"
      by (simp add: map_idI)
    with True show ?thesis by (simp add: e)
  next
    case False
    with Cons show ?thesis by (simp add: e distinct_keys_def)
  qed
qed

lemma distinct_keys_aggregate_device:
  "distinct_keys md \<Longrightarrow> distinct_keys (aggregate_device a d md)"
proof (cases "map_find md (device_key d)")
  case None
  assume dk: "distinct_keys md"
  have "aggregate_device a d md = md @ [(device_key d, [a])]"
    using None by (simp add: aggregate_device_def map_insert_def)
  moreover have "\<not> model_key_eq (fst e) (device_key d)" if "e \<in> set md" for e
    using that None by (auto simp: map_find_None_iff)
  ultimately show ?thesis
    using dk by (simp add: distinct_keys_def sorted_wrt_append)
next
  case (Some v)
  assume dk: "distinct_keys md"
  have "distinct_keys (emplace_back_found md (device_key d) a)"
    unfolding emplace_back_found_eq [OF dk]
    using dk by (simp add: distinct_keys_def sorted_wrt_map)
  with Some show ?thesis by (simp add: aggregate_device_def)
qed

lemma tags_of_Cons:
  "tags_of (ob # obs) k = (if observes k ob then fst ob # tags_of obs k else tags_of obs k)"
  by (simp add: tags_of_def)

lemma aggregate_all_split:
  "distinct_keys md \<Longrightarrow>
     aggregate_all obs md =
       map (\<lambda>e. (fst e, snd e @ tags_of obs (fst e))) md
       @ discovery_models (filter (\<lambda>ob. map_find md (device_key (snd ob)) = None) obs)"
proof (induction obs arbitrary: md)
  case Nil
  show ?case by (simp add: tags_of_def)
next
  case (Cons ob obs)
  let ?k = "device_key (snd ob)"
  let ?md1 = "aggregate_device (fst ob) (snd ob) md"
  have dk1: "distinct_keys ?md1"
    using Cons.prems by (rule distinct_keys_aggregate_device)
  note IH = Cons.IH [OF dk1]
  show ?case
  proof (cases "map_find md ?k")
    case (Some v)
    have md1: "?md1 = map (\<lambda>e. (fst e, if model_key_eq (fst e) ?k then snd e @ [fst ob] else snd e)) md"
      using Some emplace_back_found_eq [OF Cons.prems] by (simp add: aggregate_device_def)
    have same: "map_find ?md1 k' = None \<longleftrightarrow> map_find md k' = None" for k'
      by (simp add: md1 map_find_None_iff image_image)
    have "map (\<lambda>e. (fst e, snd e @ tags_of obs (fst e))) ?md1
        = map (\<lambda>e. (fst e, snd e @ tags_of (ob # obs) (fst e))) md"
      by (auto simp: md1 tags_of_Cons observes_def dest: model_key_eq_sym)
    with IH Some show ?thesis
      by (simp add: same)
  next
    case None
    have md1: "?md1 = md @ [(?k, [fst ob])]"
      using None by (simp add: aggregate_device_def map_insert_def)
    have notobs: "\<not> observes (fst e) ob" if "e \<in> set md" for e
      using that None model_key_eq_sym [of ?k "fst e"]
      by (auto simp: map_find_None_iff observes_def)
    then have left: "map (\<lambda>e. (fst e, snd e @ tags_of (ob # obs) (fst e))) md
        = map (\<lambda>e. (fst e, snd e @ tags_of obs (fst e))) md"
      by (simp add: tags_of_Cons)
    let ?F = "filter (\<lambda>ob. map_find md (device_key (snd ob)) = None) obs"
    have "observes ?k ob' \<Longrightarrow> map_find md (device_key (snd ob')) = None" for ob'
      using None model_key_eq_trans [of _ "device_key (snd ob')" ?k]
      by (auto simp: map_find_None_iff observes_def)
    then have tags: "tags_of ?F ?k = tags_of obs ?k"
      unfolding tags_of_def filter_filter
      by (metis (mono_tags, lifting))
    have "map_find (md @ [(?k, [fst ob])]) k' = None
          \<longleftrightarrow> map_find md k' = None \<and> \<not> model_key_eq ?k k'" for k'
      by (auto simp: map_find_None_iff)
    then have rest: "filter (\<lambda>ob'. map_find (md @ [(?k, [fst ob])]) (device_key (snd ob')) = None) obs
       = filter (\<lambda>ob'. map_find md (device_key (snd ob')) = None \<and> \<not> observes ?k ob') obs"
      using model_key_eq_sym
      by (auto simp: observes_def intro!: filter_cong)
    show ?thesis
      using IH None
      by (simp add: md1 left tags rest)
  qed
qed

lemma aggregate_all_discovery: "aggregate_all obs [] = discovery_models obs"
  using aggregate_all_split [of "[]" obs] by (simp add: distinct_keys_def)

lemma discovery_models_tags: "(k, tags) \<in> set (discovery_models obs) \<Longrightarrow> tags \<noteq> []"
  by (induction obs rule: discovery_models.induct) auto

lemma find_first_cause:
  "find (\<lambda>x. P x \<or> Q x) xs = Some y \<Longrightarrow>
     P y \<longleftrightarrow> (\<forall>x \<in> set (takeWhile (\<lambda>x. \<not> P x) xs). \<not> Q x)"
  by (induction xs) (auto split: if_splits)

lemma find_filter: "find P (filter Q xs) = find (\<lambda>x. Q x \<and> P x) xs"
  by (induction xs) auto

lemma find_Some_mem: "find P xs = Some x \<Longrightarrow> x \<in> set xs \<and> P x"
  by (induction xs) (auto split: if_splits)

lemma discovery_models_first:
  "(k, tags) \<in> set (discovery_models obs) \<Longrightarrow>
     \<exists>ob. find (observes k) obs = Some ob \<and> k = device_key (snd ob) \<and> tags = tags_of obs k"
proof (induction obs rule: discovery_models.induct)
  case 1
  then show ?case by simp
next
  case (2 ob obs)
  let ?k0 = "device_key (snd ob)"
  let ?F = "filter (\<lambda>ob'. \<not> observes ?k0 ob') obs"
  show ?case
  proof (cases "(k, tags) = (?k0, fst ob # tags_of obs ?k0)")
    case True
    then show ?thesis
      by (auto simp: observes_def model_key_eq_refl tags_of_Cons)
  next
    case False
    with "2.prems" have "(k, tags) \<in> set (discovery_models ?F)" by auto
    from "2.IH" [OF this] obtain ob' where f: "find (observes k) ?F = Some ob'"
      and k: "k = device_key (snd ob')" and t: "tags = tags_of ?F k"
      by blast
    from find_Some_mem [OF f] have "ob' \<in> set ?F" ..
    then have nk: "\<not> model_key_eq k ?k0"
      by (simp add: k observes_def)
    have imp: "observes k x \<Longrightarrow> \<not> observes ?k0 x" for x
      using nk model_key_eq_trans [of k "device_key (snd x)" ?k0] model_key_eq_sym [of "device_key (snd x)" k]
      by (auto simp: observes_def)
    then have "(\<lambda>x. \<not> observes ?k0 x \<and> observes k x) = observes k"
      by auto
    then have f': "find (observes k) obs = Some ob'" and t': "tags_of ?F k = tags_of obs k"
      using f by (simp_all add: find_filter tags_of_def)
    have "\<not> observes k ob"
      using nk model_key_eq_sym [of ?k0 k] by (auto simp: observes_def)
    with f' k t t' show ?thesis
      by (simp add: tags_of_Cons)
  qed
qed

lemma takeWhile_filter_kept:
  "(\<And>x. \<not> P x \<Longrightarrow> Q x) \<Longrightarrow> takeWhile P (filter Q xs) = filter Q (takeWhile P xs)"
  by (induction xs) auto

lemma length_filter_take_le: "length (filter Q (take n ys)) \<le> length (filter Q ys)"
proof -
  have "filter Q (take n ys @ drop n ys) = filter Q (take n ys) @ filter Q (drop n ys)"
    by (rule filter_append)
  then have "length (filter Q ys) = length (filter Q (take n ys)) + length (filter Q (drop n ys))"
    by simp
  then show ?thesis by simp
qed

lemma length_filter_takeWhile_mono:
  assumes "length (takeWhile P xs) \<le> length (takeWhile P' xs)"
  shows "length (filter Q (takeWhile P xs)) \<le> length (filter Q (takeWhile P' xs))"
proof -
  let ?n = "length (takeWhile P xs)" and ?m = "length (takeWhile P' xs)"
  have m: "takeWhile P' xs = take ?m xs" and n: "takeWhile P xs = take ?n xs"
    by (rule takeWhile_eq_take)+
  have "take ?n (take ?m xs) = take ?n xs"
    using assms by (simp add: min_def)
  then have "takeWhile P xs = take ?n (takeWhile P' xs)"
    using m n by simp
  then show ?thesis
    using length_filter_take_le [of Q ?n "takeWhile P' xs"] by simp
qed

lemma discovery_models_key_kept:
  assumes "(k, tags) \<in> set (discovery_models (filter (\<lambda>ob'. \<not> observes k0 ob') obs))"
  shows "\<not> model_key_eq k k0"
proof -
  from discovery_models_first [OF assms] obtain ob
    where f: "find (observes k) (filter (\<lambda>ob'. \<not> observes k0 ob') obs) = Some ob"
      and k: "k = device_key (snd ob)"
    by blast
  from find_Some_mem [OF f] have "\<not> observes k0 ob" by simp
  then show ?thesis by (simp add: k observes_def)
qed

text \<open>
  The notion of first-discovery order is the intended one: a key observed for the first
  time earlier stands earlier, every observation has its key in the list, and no two keys
  of the list are equal.
\<close>

lemma discovery_models_sorted:
  "sorted_wrt (\<lambda>e e'. first_index obs (fst e) < first_index obs (fst e')) (discovery_models obs)"
proof (induction obs rule: discovery_models.induct)
  case 1
  show ?case by simp
next
  case (2 ob obs)
  let ?k0 = "device_key (snd ob)"
  let ?Q = "\<lambda>ob'. \<not> observes ?k0 ob'"
  let ?F = "filter ?Q obs"
  have kept: "\<not> model_key_eq (fst e) ?k0" if "e \<in> set (discovery_models ?F)" for e
    using that discovery_models_key_kept [of "fst e" "snd e" ?k0 obs] by simp
  have Suc: "first_index (ob # obs) (fst e) = Suc (first_index obs (fst e))"
    if "e \<in> set (discovery_models ?F)" for e
    using kept [OF that] model_key_eq_sym [of ?k0 "fst e"]
    by (auto simp: first_index_def observes_def)
  have zero: "first_index (ob # obs) ?k0 = 0"
    by (simp add: first_index_def observes_def model_key_eq_refl)
  have inF: "first_index ?F (fst e) = length (filter ?Q (takeWhile (\<lambda>ob'. \<not> observes (fst e) ob') obs))"
    if "e \<in> set (discovery_models ?F)" for e
  proof -
    have "?Q x" if "\<not> \<not> observes (fst e) x" for x
      using that kept [OF \<open>e \<in> set (discovery_models ?F)\<close>]
        model_key_eq_trans [of "fst e" "device_key (snd x)" ?k0]
        model_key_eq_sym [of "device_key (snd x)" "fst e"]
      by (auto simp: observes_def)
    then have "takeWhile (\<lambda>ob'. \<not> observes (fst e) ob') ?F
        = filter ?Q (takeWhile (\<lambda>ob'. \<not> observes (fst e) ob') obs)"
      by (rule takeWhile_filter_kept)
    then show ?thesis
      by (simp only: first_index_def)
  qed
  have mono: "first_index (ob # obs) (fst e) < first_index (ob # obs) (fst e')"
    if "e \<in> set (discovery_models ?F)" "e' \<in> set (discovery_models ?F)"
      "first_index ?F (fst e) < first_index ?F (fst e')" for e e'
  proof (rule ccontr)
    assume "\<not> first_index (ob # obs) (fst e) < first_index (ob # obs) (fst e')"
    then have "first_index obs (fst e') \<le> first_index obs (fst e)"
      using that(1,2) by (simp add: Suc)
    then have "length (filter ?Q (takeWhile (\<lambda>ob'. \<not> observes (fst e') ob') obs))
        \<le> length (filter ?Q (takeWhile (\<lambda>ob'. \<not> observes (fst e) ob') obs))"
      unfolding first_index_def by (rule length_filter_takeWhile_mono)
    then have "first_index ?F (fst e') \<le> first_index ?F (fst e)"
      by (simp only: inF [OF that(1)] inF [OF that(2)])
    with that(3) show False by simp
  qed
  have "sorted_wrt (\<lambda>e e'. first_index (ob # obs) (fst e) < first_index (ob # obs) (fst e'))
      (discovery_models ?F)"
    using "2.IH" mono by (rule sorted_wrt_mono_rel [rotated])
  then show ?case
    by (simp add: zero Suc)
qed

lemma discovery_models_covers:
  "ob \<in> set obs \<Longrightarrow> \<exists>e \<in> set (discovery_models obs). observes (fst e) ob"
proof (induction obs rule: discovery_models.induct)
  case 1
  then show ?case by simp
next
  case (2 ob0 obs)
  show ?case
  proof (cases "observes (device_key (snd ob0)) ob")
    case True
    then show ?thesis by simp
  next
    case False
    with "2.prems" have "ob \<in> set (filter (\<lambda>ob'. \<not> observes (device_key (snd ob0)) ob') obs)"
      by (auto simp: observes_def model_key_eq_refl)
    from "2.IH" [OF this] show ?thesis by auto
  qed
qed

lemma discovery_models_distinct_keys: "distinct_keys (discovery_models obs)"
proof -
  have "distinct_keys (aggregate_all obs md)" if "distinct_keys md" for md
    using that by (induction obs arbitrary: md) (simp_all add: distinct_keys_aggregate_device)
  from this [of "[]"] show ?thesis
    by (simp add: aggregate_all_discovery distinct_keys_def)
qed

lemma aggregate_device_key_only:
  "device_key d = device_key d' \<Longrightarrow> aggregate_device a d md = aggregate_device a d' md"
  by (simp add: aggregate_device_def)

lemma aggregate_all_key_only:
  "list_all2 (\<lambda>ob ob'. fst ob = fst ob' \<and> device_key (snd ob) = device_key (snd ob')) obs obs'
   \<Longrightarrow> aggregate_all obs md = aggregate_all obs' md"
proof (induction obs obs' arbitrary: md rule: list_all2_induct)
  case Nil
  show ?case by simp
next
  case (Cons ob obs ob' obs')
  then show ?case
    using aggregate_device_key_only [of "snd ob" "snd ob'" "fst ob" md] by simp
qed

section \<open>The report\<close>

lemma observed_devices_Cons:
  "observed_devices file (c # cs) =
     map (Pair (architecture c)) (map device_of_line (section_lines file (models_section c)))
     @ observed_devices file cs"
  by (simp add: observed_devices_def)

lemma aggregate_correlations_eq:
  "\<forall>c \<in> set cs. has_section file (models_section c) \<Longrightarrow>
   aggregate_correlations file cs md =
     (if zero_field_line file cs then Inl MissingInstallSectionError
      else Inr (aggregate_all (observed_devices file cs) md))"
proof (induction cs arbitrary: md)
  case Nil
  show ?case by (simp add: zero_field_line_def observed_devices_def)
next
  case (Cons c cs)
  then have hs: "has_section file (models_section c)" by simp
  show ?case
  proof (cases "\<exists>l \<in> set (section_lines file (models_section c)). line_size l = 0")
    case True
    then show ?thesis
      by (auto simp: extract_device_descriptions_eq [OF hs] zero_field_line_def)
  next
    case False
    then have "zero_field_line file (c # cs) \<longleftrightarrow> zero_field_line file cs"
      by (auto simp: zero_field_line_def)
    moreover have "extract_device_descriptions file (models_section c)
        = Inr (map device_of_line (section_lines file (models_section c)))"
      using False by (simp only: extract_device_descriptions_eq [OF hs] if_False)
    ultimately show ?thesis
      using Cons
      by (simp add: aggregate_section_eq observed_devices_Cons aggregate_all_append)
  qed
qed

lemma to_utf8_each_eq:
  "to_utf8_each well_formed utf8 xs out =
     (if \<forall>s \<in> set xs. well_formed s then Inr (out @ map utf8 xs) else Inl EncodingError)"
  by (induction xs arbitrary: out) (simp_all add: to_utf8_def)

lemma to_model_eq:
  "to_model well_formed utf8 entry =
     (if entry_convertible well_formed entry then Inr (model_of utf8 entry)
      else Inl EncodingError)"
  by (simp add: to_model_def to_utf8_def to_utf8_each_eq entry_convertible_def model_of_def)

lemma to_models_eq:
  "to_models well_formed utf8 md out =
     (if \<forall>entry \<in> set md. entry_convertible well_formed entry
      then Inr (out @ map (model_of utf8) md) else Inl EncodingError)"
  by (induction md arbitrary: out) (simp_all add: to_model_eq)

lemma report_entry_eq:
  assumes "extract_sections file = Inr S"
  shows "report_entry traverse well_formed utf8 file S m =
     (if zero_field_line file (correlate_models_sections m S) then Inl MissingInstallSectionError
      else if convertible well_formed traverse file S m
      then Inr (entry_of traverse utf8 file S m)
      else Inl EncodingError)"
proof -
  have "\<forall>c \<in> set (correlate_models_sections m S). has_section file (models_section c)"
    using assms by (auto dest: correlate_models_sections_section extract_sections_has_section)
  then show ?thesis
    by (simp add: report_entry_def aggregate_correlations_eq aggregate_all_discovery
        to_utf8_def to_models_eq convertible_def entry_of_def)
qed

lemma report_entry_fails:
  assumes "extract_sections file = Inr S"
  shows "(\<exists>e. report_entry traverse well_formed utf8 file S m = Inl e)
     \<longleftrightarrow> fails well_formed traverse file S m"
  by (simp add: report_entry_eq [OF assms] fails_def)

lemma report_entries_eq:
  assumes "extract_sections file = Inr S"
  shows "report_entries traverse well_formed utf8 file S ms out =
     (case find (fails well_formed traverse file S) ms of
        None \<Rightarrow> Inr (out @ map (entry_of traverse utf8 file S) ms)
      | Some m \<Rightarrow>
          Inl (if zero_field_line file (correlate_models_sections m S)
               then MissingInstallSectionError else EncodingError))"
proof (induction ms arbitrary: out)
  case Nil
  show ?case by simp
next
  case (Cons m ms)
  show ?case
  proof (cases "fails well_formed traverse file S m")
    case True
    then show ?thesis
      by (auto simp: report_entry_eq [OF assms] fails_def)
  next
    case False
    then have "report_entry traverse well_formed utf8 file S m
        = Inr (entry_of traverse utf8 file S m)"
      by (simp add: report_entry_eq [OF assms] fails_def)
    with False Cons show ?thesis by (simp split: option.splits)
  qed
qed

lemma report_entries_Inr:
  assumes "extract_sections file = Inr S"
    and "report_entries traverse well_formed utf8 file S ms out = Inr r"
  shows "r = out @ map (entry_of traverse utf8 file S) ms"
  using assms(2) unfolding report_entries_eq [OF assms(1)]
  by (simp split: option.splits)

lemma select_report_data_manufacturers:
  assumes "extract_sections file = Inr S"
    and "extract_manufacturers file = Inr ms"
  shows "select_report_data traverse well_formed utf8 file
     = report_entries traverse well_formed utf8 file S ms []"
  by (simp add: select_report_data_def assms)

lemma select_report_data_Inr:
  assumes "extract_sections file = Inr S"
    and "select_report_data traverse well_formed utf8 file = Inr r"
  shows "r = map (entry_of traverse utf8 file S \<circ> manufacturer_of_line)
               (section_lines file ''Manufacturer'')"
proof -
  from assms(2) have hs: "has_section file ''Manufacturer''"
    by (auto simp: select_report_data_def assms(1) extract_manufacturers_eq split: if_splits)
  then have "extract_manufacturers file
      = Inr (map manufacturer_of_line (section_lines file ''Manufacturer''))"
    by (simp add: extract_manufacturers_eq)
  from select_report_data_manufacturers [OF assms(1) this] assms(2)
  have "report_entries traverse well_formed utf8 file S
      (map manufacturer_of_line (section_lines file ''Manufacturer'')) [] = Inr r"
    by simp
  from report_entries_Inr [OF assms(1) this] show ?thesis
    by simp
qed

lemma iteration_order_set: "iteration_order traverse \<Longrightarrow> set (traverse md) = set md"
  unfolding iteration_order_def by (metis set_mset_mset)


section \<open>Replacing install sections\<close>

lemma names_with_install_sections [simp]:
  "map fst (with_install_sections f file) = map fst file"
  by (simp add: with_install_sections_def comp_def if_distrib [of fst] cong: if_cong)

lemma has_section_with_install_sections [simp]:
  "has_section (with_install_sections f file) n = has_section file n"
proof -
  have "has_section fl n \<longleftrightarrow> (\<exists>s \<in> set (map fst fl). ci_equal s n)" for fl
    by (auto simp: has_section_def)
  then show ?thesis
    by (simp only: names_with_install_sections)
qed

lemma extract_sections_with_install_sections [simp]:
  "extract_sections (with_install_sections f file) = extract_sections file"
  by (simp add: extract_sections_def for_each_section_def)

lemma section_lines_with_install_sections:
  "section_lines (with_install_sections f file) n =
     (if ci_equal n ''Manufacturer'' then section_lines file n
      else map (replace_install_section f) (section_lines file n))"
proof -
  have "ci_equal (fst s) ''Manufacturer'' \<longleftrightarrow> ci_equal n ''Manufacturer''" if "ci_equal (fst s) n" for s :: "section_name \<times> line list"
    using that ci_equal_trans ci_equal_sym by blast
  then show ?thesis
    unfolding section_lines_def with_install_sections_def
    by (induction "file") auto
qed

lemma line_size_replace_install_section [simp]:
  "line_size (replace_install_section f l) = 0 \<longleftrightarrow> line_size l = 0"
  by (simp add: replace_install_section_def line_size_def)

lemma device_key_replace_install_section [simp]:
  "device_key (device_of_line (replace_install_section f l)) = device_key (device_of_line l)"
  by (simp add: replace_install_section_def device_key_def device_of_line_def)

lemma zero_field_line_with_install_sections [simp]:
  "zero_field_line (with_install_sections f file) cs = zero_field_line file cs"
  by (auto simp: zero_field_line_def section_lines_with_install_sections)

lemma observed_with_install_sections:
  "list_all2 (\<lambda>ob ob'. fst ob = fst ob' \<and> device_key (snd ob) = device_key (snd ob'))
     (observed_devices (with_install_sections f file) cs) (observed_devices file cs)"
proof (induction cs)
  case Nil
  show ?case by (simp add: observed_devices_def)
next
  case (Cons c cs)
  have "list_all2 (\<lambda>ob ob'. fst ob = fst ob' \<and> device_key (snd ob) = device_key (snd ob'))
     (map (Pair (architecture c)) (map device_of_line
        (section_lines (with_install_sections f file) (models_section c))))
     (map (Pair (architecture c)) (map device_of_line (section_lines file (models_section c))))"
    by (simp add: section_lines_with_install_sections list_all2_map1 list_all2_map2 list_all2_same)
  with Cons show ?case
    by (simp add: observed_devices_Cons list_all2_appendI)
qed

lemma discovery_with_install_sections:
  "discovery_models (observed_devices (with_install_sections f file) cs)
     = discovery_models (observed_devices file cs)"
  using aggregate_all_key_only [OF observed_with_install_sections, of f "file" cs "[]"]
  by (simp add: aggregate_all_discovery)

lemma select_report_data_with_install_sections:
  "select_report_data traverse well_formed utf8 (with_install_sections f file)
     = select_report_data traverse well_formed utf8 file"
proof -
  obtain S where S: "extract_sections file = Inr S"
    using extract_sections_total by blast
  then have S': "extract_sections (with_install_sections f file) = Inr S"
    by simp
  have "ci_equal ''Manufacturer'' ''Manufacturer''"
    by (rule ci_equal_refl)
  then have "section_lines (with_install_sections f file) ''Manufacturer''
      = section_lines file ''Manufacturer''"
    by (simp add: section_lines_with_install_sections)
  then have ms: "extract_manufacturers (with_install_sections f file) = extract_manufacturers file"
    by (simp add: extract_manufacturers_eq)
  have "report_entry traverse well_formed utf8 (with_install_sections f file) S m
      = report_entry traverse well_formed utf8 file S m" for m
    by (simp add: report_entry_eq [OF S] report_entry_eq [OF S'] entry_of_def convertible_def
        discovery_with_install_sections)
  then have "report_entries traverse well_formed utf8 (with_install_sections f file) S ms out
      = report_entries traverse well_formed utf8 file S ms out" for ms out
    by (induction ms arbitrary: out) (simp_all split: sum.splits)
  then show ?thesis
    by (simp add: select_report_data_def S S' ms split: sum.splits)
qed

section \<open>Properties of the report\<close>

text \<open>
  Claim C1, amended. For every iteration order of the map, the \<open>devices\<close> of the i-th
  manufacturer of the report are the models of its observations in first-discovery order,
  up to a permutation: one model for each distinct key. They are in first-discovery order
  itself whenever the map hands out its entries in the order of their insertion. In
  first-discovery order, a model whose key is first observed earlier stands earlier.
\<close>

theorem devices_discovery_order_up_to_iteration:
  assumes "iteration_order traverse"
    and "extract_sections file = Inr S"
    and "extract_manufacturers file = Inr ms"
    and "select_report_data traverse well_formed utf8 file = Inr r"
    and "i < length ms"
  shows "mset (devices (r ! i)) =
           mset (map (model_of utf8)
             (discovery_models (observed_devices file (correlate_models_sections (ms ! i) S))))
    \<and> (traverse (discovery_models (observed_devices file (correlate_models_sections (ms ! i) S)))
          = discovery_models (observed_devices file (correlate_models_sections (ms ! i) S))
        \<longrightarrow> devices (r ! i) = map (model_of utf8)
             (discovery_models (observed_devices file (correlate_models_sections (ms ! i) S))))
    \<and> sorted_wrt
         (\<lambda>e e'. first_index (observed_devices file (correlate_models_sections (ms ! i) S)) (fst e)
                  < first_index (observed_devices file (correlate_models_sections (ms ! i) S)) (fst e'))
         (discovery_models (observed_devices file (correlate_models_sections (ms ! i) S)))"
proof -
  have sel: "select_report_data traverse well_formed utf8 file
      = report_entries traverse well_formed utf8 file S ms []"
    by (simp add: select_report_data_def assms(2,3))
  from assms(4) have "r = map (entry_of traverse utf8 file S) ms"
    using report_entries_Inr [OF assms(2), of traverse well_formed utf8 ms "[]" r]
    by (simp add: sel)
  with assms(5) have "r ! i = entry_of traverse utf8 file S (ms ! i)"
    by simp
  moreover have "mset (map f (traverse md)) = mset (map f md)" for f :: "model_key \<times> wstring list \<Rightarrow> model" and md
    using assms(1) by (metis iteration_order_def mset_map)
  ultimately show ?thesis
    by (simp add: entry_of_def discovery_models_sorted)
qed

text \<open>
  The first manufacturer of the example document, with the map iterated backwards.
\<close>

theorem devices_discovery_order_up_to_iteration_witness:
  "iteration_order rev
   \<and> extract_sections example_file = Inr example_sections
   \<and> extract_manufacturers example_file = Inr example_manufacturers
   \<and> select_report_data rev example_well_formed id example_file = Inr example_report_reversed
   \<and> 0 < length example_manufacturers
   \<and> mset (devices (example_report_reversed ! 0)) =
       mset (map (model_of id)
         (discovery_models (observed_devices example_file
            (correlate_models_sections (example_manufacturers ! 0) example_sections))))"
proof -
  have len: "0 < length example_manufacturers"
    by (simp add: example_manufacturers_def)
  from devices_discovery_order_up_to_iteration
    [OF iteration_order_rev example_sections_eq example_manufacturers_eq
      example_report_reversed_eq len]
  show ?thesis
    using iteration_order_rev example_sections_eq example_manufacturers_eq
      example_report_reversed_eq len
    by blast
qed

text \<open>
  Claim C1 as stated fails. Reversal is an iteration order, and under it the models of the
  first manufacturer of the example document come out last-discovered first.
\<close>

theorem devices_order_counterexample:
  "iteration_order rev
   \<and> extract_sections example_file = Inr example_sections
   \<and> extract_manufacturers example_file = Inr example_manufacturers
   \<and> map fst (discovery_models (observed_devices example_file
         (correlate_models_sections (example_manufacturers ! 0) example_sections)))
       = [\<lparr>model_key.description = ''D1'', hardware_ids = [''HW1'', ''C1'']\<rparr>,
          \<lparr>model_key.description = ''D2'', hardware_ids = []\<rparr>,
          \<lparr>model_key.description = ''D1'', hardware_ids = [''hw1'', ''C1'']\<rparr>]
   \<and> select_report_data rev example_well_formed id example_file = Inr example_report_reversed
   \<and> map (\<lambda>mo. (model.description mo, model.hardware_ids mo))
         (devices (example_report_reversed ! 0))
       = [(''D1'', [''hw1'', ''C1'']), (''D2'', []), (''D1'', [''HW1'', ''C1''])]"
proof -
  have "map fst (discovery_models (observed_devices example_file
         (correlate_models_sections (example_manufacturers ! 0) example_sections)))
       = [\<lparr>model_key.description = ''D1'', hardware_ids = [''HW1'', ''C1'']\<rparr>,
          \<lparr>model_key.description = ''D2'', hardware_ids = []\<rparr>,
          \<lparr>model_key.description = ''D1'', hardware_ids = [''hw1'', ''C1'']\<rparr>]"
    by code_simp
  moreover have "map (\<lambda>mo. (model.description mo, model.hardware_ids mo))
         (devices (example_report_reversed ! 0))
       = [(''D1'', [''hw1'', ''C1'']), (''D2'', []), (''D1'', [''HW1'', ''C1''])]"
    by (simp add: example_report_reversed_def)
  ultimately show ?thesis
    using iteration_order_rev example_sections_eq example_manufacturers_eq
      example_report_reversed_eq
    by blast
qed

text \<open>
  Claim C4, amended. If some line of a correlated models section of some manufacturer has
  no field, then \<^verbatim>\<open>select_report_data\<close> fails, and \<^verbatim>\<open>main_with_code\<close> writes no report: it
  exits with the code \<open>error\<close> and the payload of that failure on \<^verbatim>\<open>std::cerr\<close>. The failure
  is \<open>MissingInstallSectionError\<close> exactly when all text converts for every manufacturer
  declared before the first one that has such a line; otherwise a manufacturer before it
  ends the run with \<open>EncodingError\<close>, and the line is never read.
\<close>

theorem zero_fields_abort_run:
  assumes "extract_sections file = Inr S"
    and "extract_manufacturers file = Inr ms"
    and "m \<in> set ms"
    and "c \<in> set (correlate_models_sections m S)"
    and "l \<in> set (section_lines file (models_section c))"
    and "line_size l = 0"
    and "2 \<le> length argv"
    and "open_file (argv ! 1) = Inr file"
  shows "(\<exists>e. select_report_data traverse well_formed utf8 file = Inl e
            \<and> (e = MissingInstallSectionError \<or> e = EncodingError)
            \<and> main_with_code traverse well_formed utf8 open_file argv =
                \<lparr>exit_code = exit_codes.error, cout = None, cerr = Some (Error_payload e)\<rparr>)
    \<and> (select_report_data traverse well_formed utf8 file = Inl MissingInstallSectionError
         \<longleftrightarrow> (\<forall>m' \<in> set (takeWhile
                        (\<lambda>m'. \<not> zero_field_line file (correlate_models_sections m' S)) ms).
                convertible well_formed traverse file S m'))"
proof -
  let ?P = "\<lambda>m'. zero_field_line file (correlate_models_sections m' S)"
  let ?Q = "\<lambda>m'. \<not> convertible well_formed traverse file S m'"
  have zf: "?P m"
    using assms(4-6) by (auto simp: zero_field_line_def)
  have F: "fails well_formed traverse file S = (\<lambda>m'. ?P m' \<or> ?Q m')"
    by (simp add: fun_eq_iff fails_def)
  from assms(3) zf have "find (\<lambda>m'. ?P m' \<or> ?Q m') ms \<noteq> None"
    by (auto simp: find_None_iff)
  then obtain m0 where m0: "find (\<lambda>m'. ?P m' \<or> ?Q m') ms = Some m0"
    by blast
  let ?e = "if ?P m0 then MissingInstallSectionError else EncodingError"
  have sel: "select_report_data traverse well_formed utf8 file = Inl ?e"
    by (simp add: select_report_data_manufacturers [OF assms(1,2)]
        report_entries_eq [OF assms(1)] F m0)
  have main: "main_with_code traverse well_formed utf8 open_file argv =
      \<lparr>exit_code = exit_codes.error, cout = None, cerr = Some (Error_payload ?e)\<rparr>"
    using assms(7,8) by (simp add: main_with_code_def sel handle_def)
  have "select_report_data traverse well_formed utf8 file = Inl MissingInstallSectionError
      \<longleftrightarrow> ?P m0"
    by (simp add: sel)
  also have "\<dots> \<longleftrightarrow> (\<forall>m' \<in> set (takeWhile (\<lambda>m'. \<not> ?P m') ms). \<not> ?Q m')"
    using m0 by (rule find_first_cause)
  finally have cause: "select_report_data traverse well_formed utf8 file
        = Inl MissingInstallSectionError
      \<longleftrightarrow> (\<forall>m' \<in> set (takeWhile (\<lambda>m'. \<not> ?P m') ms).
             convertible well_formed traverse file S m')"
    by simp
  have "?e = MissingInstallSectionError \<or> ?e = EncodingError"
    by simp
  with sel main have "\<exists>e. select_report_data traverse well_formed utf8 file = Inl e
      \<and> (e = MissingInstallSectionError \<or> e = EncodingError)
      \<and> main_with_code traverse well_formed utf8 open_file argv =
          \<lparr>exit_code = exit_codes.error, cout = None, cerr = Some (Error_payload e)\<rparr>"
    by blast
  with cause show ?thesis
    by (rule conjI [rotated])
qed

text \<open>
  The document with a field-less line in the second correlated section of its only
  manufacturer: nothing is converted before the line is read.
\<close>

theorem zero_fields_abort_run_witness:
  "extract_sections broken_file = Inr broken_sections
   \<and> extract_manufacturers broken_file = Inr broken_manufacturers
   \<and> broken_manufacturers ! 0 \<in> set broken_manufacturers
   \<and> \<lparr>architecture = ''ntamd64'', models_section = ''Acme.ntamd64''\<rparr>
         \<in> set (correlate_models_sections (broken_manufacturers ! 0) broken_sections)
   \<and> \<lparr>key = ''D3'', line_fields = []\<rparr> \<in> set (section_lines broken_file ''Acme.ntamd64'')
   \<and> line_size \<lparr>key = ''D3'', line_fields = []\<rparr> = 0
   \<and> 2 \<le> length [''inf_to_json'', ''broken.inf'']
   \<and> open_example ([''inf_to_json'', ''broken.inf''] ! 1) = Inr broken_file
   \<and> takeWhile (\<lambda>m'. \<not> zero_field_line broken_file
                          (correlate_models_sections m' broken_sections))
         broken_manufacturers = []
   \<and> select_report_data rev example_well_formed id broken_file = Inl MissingInstallSectionError
   \<and> main_with_code rev example_well_formed id open_example [''inf_to_json'', ''broken.inf''] =
        \<lparr>exit_code = exit_codes.error, cout = None,
         cerr = Some (Error_payload MissingInstallSectionError)\<rparr>"
proof -
  have h1: "extract_sections broken_file = Inr broken_sections"
    by code_simp
  have h2: "extract_manufacturers broken_file = Inr broken_manufacturers"
    by code_simp
  have h3: "broken_manufacturers ! 0 \<in> set broken_manufacturers"
    by (simp add: broken_manufacturers_def)
  have h4: "\<lparr>architecture = ''ntamd64'', models_section = ''Acme.ntamd64''\<rparr>
         \<in> set (correlate_models_sections (broken_manufacturers ! 0) broken_sections)"
    by code_simp
  have h5: "\<lparr>key = ''D3'', line_fields = []\<rparr>
         \<in> set (section_lines broken_file
              (models_section \<lparr>architecture = ''ntamd64'', models_section = ''Acme.ntamd64''\<rparr>))"
    by code_simp
  have h6: "line_size \<lparr>key = ''D3'', line_fields = []\<rparr> = 0"
    by (simp add: line_size_def)
  have h7: "2 \<le> length [''inf_to_json'', ''broken.inf'']"
    by simp
  have h8: "open_example ([''inf_to_json'', ''broken.inf''] ! 1) = Inr broken_file"
    by (simp add: open_example_def)
  have first: "takeWhile (\<lambda>m'. \<not> zero_field_line broken_file
                          (correlate_models_sections m' broken_sections))
         broken_manufacturers = []"
    by code_simp
  from zero_fields_abort_run
    [where open_file = open_example and argv = "[''inf_to_json'', ''broken.inf'']"
       and traverse = rev and well_formed = example_well_formed and ?utf8.0 = id,
     OF h1 h2 h3 h4 h5 h6 h7 h8]
  show ?thesis
    using h1 h2 h3 h4 h5 h6 h7 h8 first by auto
qed

text \<open>
  Claim C4 as stated fails. The second manufacturer of this document has a device line
  without fields, in a section that the Correlator yields for it. The first manufacturer
  has a device whose description does not convert, and the run ends there, with
  \<open>EncodingError\<close>, before the sections of the second are read.
\<close>

theorem zero_fields_error_counterexample:
  "extract_sections garbled_file = Inr garbled_sections
   \<and> extract_manufacturers garbled_file = Inr garbled_manufacturers
   \<and> \<lparr>architecture = [], models_section = ''Two''\<rparr>
         \<in> set (correlate_models_sections (garbled_manufacturers ! 1) garbled_sections)
   \<and> \<lparr>key = ''D2'', line_fields = []\<rparr> \<in> set (section_lines garbled_file ''Two'')
   \<and> line_size \<lparr>key = ''D2'', line_fields = []\<rparr> = 0
   \<and> \<not> example_well_formed [CHR ''D'', CHR 0xD8]
   \<and> select_report_data rev example_well_formed id garbled_file = Inl EncodingError
   \<and> main_with_code rev example_well_formed id open_example [''inf_to_json'', ''garbled.inf''] =
        \<lparr>exit_code = exit_codes.error, cout = None, cerr = Some (Error_payload EncodingError)\<rparr>"
proof -
  have "extract_sections garbled_file = Inr garbled_sections"
    by code_simp
  moreover have "extract_manufacturers garbled_file = Inr garbled_manufacturers"
    by code_simp
  moreover have "\<lparr>architecture = [], models_section = ''Two''\<rparr>
         \<in> set (correlate_models_sections (garbled_manufacturers ! 1) garbled_sections)"
    by code_simp
  moreover have "\<lparr>key = ''D2'', line_fields = []\<rparr> \<in> set (section_lines garbled_file ''Two'')"
    by code_simp
  moreover have "line_size \<lparr>key = ''D2'', line_fields = []\<rparr> = 0"
    by (simp add: line_size_def)
  moreover have "\<not> example_well_formed [CHR ''D'', CHR 0xD8]"
    by code_simp
  moreover have "select_report_data rev example_well_formed id garbled_file = Inl EncodingError"
    by code_simp
  moreover have "main_with_code rev example_well_formed id open_example
        [''inf_to_json'', ''garbled.inf''] =
        \<lparr>exit_code = exit_codes.error, cout = None, cerr = Some (Error_payload EncodingError)\<rparr>"
    by code_simp
  ultimately show ?thesis
    by blast
qed

text \<open>
  Claim C7. The names of the manufacturers of the report are the converted keys of the
  lines of the manufacturer section, in file order; and the entry at each position is the
  entry of the declaration on the line at that position.
\<close>

theorem manufacturers_in_declaration_order:
  assumes "extract_sections file = Inr S"
    and "select_report_data traverse well_formed utf8 file = Inr r"
  shows "map manufacturer.name r = map (\<lambda>l. utf8 (key l)) (section_lines file ''Manufacturer'')
    \<and> r = map (\<lambda>l. entry_of traverse utf8 file S (manufacturer_of_line l))
              (section_lines file ''Manufacturer'')"
proof -
  have r: "r = map (entry_of traverse utf8 file S \<circ> manufacturer_of_line)
                 (section_lines file ''Manufacturer'')"
    using assms by (rule select_report_data_Inr)
  then show ?thesis
    by (simp add: entry_of_def manufacturer_of_line_def comp_def)
qed

text \<open>
  The three manufacturers of the example document.
\<close>

theorem manufacturers_in_declaration_order_witness:
  "extract_sections example_file = Inr example_sections
   \<and> select_report_data rev example_well_formed id example_file = Inr example_report_reversed
   \<and> map manufacturer.name example_report_reversed = [''Acme Corp'', ''Nobody'', ''Initech'']
   \<and> map key (section_lines example_file ''Manufacturer'')
       = [''Acme Corp'', ''Nobody'', ''Initech'']"
proof -
  have "map key (section_lines example_file ''Manufacturer'')
       = [''Acme Corp'', ''Nobody'', ''Initech'']"
    by code_simp
  with manufacturers_in_declaration_order [OF example_sections_eq example_report_reversed_eq]
  show ?thesis
    using example_sections_eq example_report_reversed_eq by simp
qed



text \<open>
  Claim C9. Every model of the report is built from the first observation, in the order
  of the traversal, that bears its key: its description is the converted description of
  that declaration, as written there. Replacing the install-section fields of the device
  lines by anything whatever leaves the report as it is. And a declaration whose key is
  already in the map is merged in the same way as any other declaration with an equal
  key, whatever the letter case of its description and whatever its install section: it
  contributes its tag and nothing else.
\<close>

theorem description_of_first_declaration:
  assumes "iteration_order traverse"
    and "extract_sections file = Inr S"
    and "extract_manufacturers file = Inr ms"
    and "select_report_data traverse well_formed utf8 file = Inr r"
    and "i < length ms"
    and "mo \<in> set (devices (r ! i))"
  shows "(\<exists>ob. find (observes (device_key (snd ob)))
                 (observed_devices file (correlate_models_sections (ms ! i) S)) = Some ob
            \<and> model.description mo = utf8 (device_description (snd ob))
            \<and> mo = model_of utf8 (device_key (snd ob),
                 tags_of (observed_devices file (correlate_models_sections (ms ! i) S))
                   (device_key (snd ob))))
    \<and> select_report_data traverse well_formed utf8 (with_install_sections f file) = Inr r
    \<and> (\<forall>a d d' md tags.
          model_key_eq (device_key d) (device_key d') \<longrightarrow>
          map_find md (device_key d) = Some tags \<longrightarrow>
          aggregate_device a d' md = aggregate_device a d md)"
proof -
  let ?obs = "observed_devices file (correlate_models_sections (ms ! i) S)"
  have sel: "select_report_data traverse well_formed utf8 file
      = report_entries traverse well_formed utf8 file S ms []"
    by (simp add: select_report_data_def assms(2,3))
  from assms(4) have "r = map (entry_of traverse utf8 file S) ms"
    using report_entries_Inr [OF assms(2), of traverse well_formed utf8 ms "[]" r]
    by (simp add: sel)
  with assms(5) have "r ! i = entry_of traverse utf8 file S (ms ! i)"
    by simp
  with assms(6) obtain e where "e \<in> set (traverse (discovery_models ?obs))"
    and mo: "mo = model_of utf8 e"
    by (auto simp: entry_of_def)
  then have "(fst e, snd e) \<in> set (discovery_models ?obs)"
    by (simp add: iteration_order_set [OF assms(1)])
  from discovery_models_first [OF this] obtain ob
    where "find (observes (fst e)) ?obs = Some ob" "fst e = device_key (snd ob)"
      "snd e = tags_of ?obs (fst e)"
    by blast
  then have "find (observes (device_key (snd ob))) ?obs = Some ob
      \<and> model.description mo = utf8 (device_description (snd ob))
      \<and> mo = model_of utf8 (device_key (snd ob), tags_of ?obs (device_key (snd ob)))"
    by (simp add: mo model_of_def device_key_def)
  then have "\<exists>ob. find (observes (device_key (snd ob))) ?obs = Some ob
      \<and> model.description mo = utf8 (device_description (snd ob))
      \<and> mo = model_of utf8 (device_key (snd ob), tags_of ?obs (device_key (snd ob)))"
    by (rule exI)
  moreover have "select_report_data traverse well_formed utf8 (with_install_sections f file) = Inr r"
    using assms(4) by (simp only: select_report_data_with_install_sections)
  moreover have "\<forall>a d d' md tags.
      model_key_eq (device_key d) (device_key d') \<longrightarrow>
      map_find md (device_key d) = Some tags \<longrightarrow>
      aggregate_device a d' md = aggregate_device a d md"
    using aggregate_device_merge by blast
  ultimately show ?thesis
    by (intro conjI)
qed

text \<open>
  The key of the first line of the example document is observed three times, under two
  spellings of the description and three install sections.
\<close>

theorem description_of_first_declaration_witness:
  "iteration_order rev
   \<and> extract_sections example_file = Inr example_sections
   \<and> extract_manufacturers example_file = Inr example_manufacturers
   \<and> select_report_data rev example_well_formed id example_file = Inr example_report_reversed
   \<and> 0 < length example_manufacturers
   \<and> \<lparr>model.description = ''D1'', hardware_ids = [''HW1'', ''C1''],
        architectures = ['''', '''', ''ntamd64'']\<rparr>
        \<in> set (devices (example_report_reversed ! 0))
   \<and> (\<exists>ob. find (observes (device_key (snd ob)))
               (observed_devices example_file
                  (correlate_models_sections (example_manufacturers ! 0) example_sections))
             = Some ob
           \<and> ''D1'' = device_description (snd ob))
   \<and> select_report_data rev example_well_formed id (with_install_sections (\<lambda>l. ''Elsewhere'') example_file)
       = Inr example_report_reversed"
proof -
  have len: "0 < length example_manufacturers"
    by (simp add: example_manufacturers_def)
  have mem: "\<lparr>model.description = ''D1'', hardware_ids = [''HW1'', ''C1''],
        architectures = ['''', '''', ''ntamd64'']\<rparr>
        \<in> set (devices (example_report_reversed ! 0))"
    by (simp add: example_report_reversed_def)
  from description_of_first_declaration
    [OF iteration_order_rev example_sections_eq example_manufacturers_eq
      example_report_reversed_eq len mem, of "\<lambda>l. ''Elsewhere''"]
  show ?thesis
    using iteration_order_rev example_sections_eq example_manufacturers_eq
      example_report_reversed_eq len mem
    by auto
qed

text \<open>
  Claim C10. Every model of every manufacturer of the report has at least one
  architecture tag.
\<close>

theorem architectures_nonempty:
  assumes "iteration_order traverse"
    and "select_report_data traverse well_formed utf8 file = Inr r"
    and "m \<in> set r"
    and "mo \<in> set (devices m)"
  shows "model.architectures mo \<noteq> []"
proof -
  obtain S where S: "extract_sections file = Inr S"
    using extract_sections_total by blast
  have "r = map (entry_of traverse utf8 file S \<circ> manufacturer_of_line)
                 (section_lines file ''Manufacturer'')"
    using S assms(2) by (rule select_report_data_Inr)
  with assms(3) obtain ml where m: "m = entry_of traverse utf8 file S ml"
    by auto
  let ?md = "discovery_models (observed_devices file (correlate_models_sections ml S))"
  from assms(4) obtain e where e: "e \<in> set (traverse ?md)" and mo: "mo = model_of utf8 e"
    by (auto simp: m entry_of_def)
  from e have "e \<in> set ?md"
    by (simp add: iteration_order_set [OF assms(1)])
  then have "snd e \<noteq> []"
    using discovery_models_tags [of "fst e" "snd e"] by simp
  then show ?thesis
    by (simp add: mo model_of_def)
qed

text \<open>
  A model of the example document.
\<close>

theorem architectures_nonempty_witness:
  "iteration_order rev
   \<and> select_report_data rev example_well_formed id example_file = Inr example_report_reversed
   \<and> example_report_reversed ! 0 \<in> set example_report_reversed
   \<and> \<lparr>model.description = ''D2'', hardware_ids = [], architectures = ['''']\<rparr>
        \<in> set (devices (example_report_reversed ! 0))
   \<and> model.architectures
        \<lparr>model.description = ''D2'', hardware_ids = [], architectures = ['''']\<rparr> \<noteq> []"
proof -
  have h3: "example_report_reversed ! 0 \<in> set example_report_reversed"
    by (simp add: example_report_reversed_def)
  have h4: "\<lparr>model.description = ''D2'', hardware_ids = [], architectures = ['''']\<rparr>
        \<in> set (devices (example_report_reversed ! 0))"
    by (simp add: example_report_reversed_def)
  from architectures_nonempty [OF iteration_order_rev example_report_reversed_eq h3 h4]
  show ?thesis
    using iteration_order_rev example_report_reversed_eq h3 h4 by blast
qed

end
